theory Spec2Isabelle
  imports Main "HOL-Library.Sublist" "HOL-Library.AList" "HOL-Library.Char_ord"
    "HOL-Library.List_Lexorder"
begin

section \<open>JavaScript strings\<close>

text \<open>
  A JavaScript string is modelled as a HOL \<open>string\<close>: one \<open>char\<close> per code unit, which
  covers the code units below 256. A value that may be \<open>null\<close> or \<open>undefined\<close> is an
  \<open>option\<close>; \<open>truthy\<close> is the test JavaScript applies to such a value in a condition.
\<close>

definition truthy :: "string option \<Rightarrow> bool" where
  "truthy v = (case v of None \<Rightarrow> False | Some s \<Rightarrow> s \<noteq> [])"

text \<open>\<open>s.split(d)\<close> for a one-character separator: never empty, \<open>''''.split(d) = ['''']\<close>.\<close>

fun split_on :: "char \<Rightarrow> string \<Rightarrow> string list" where
  "split_on d [] = [[]]"
| "split_on d (c # cs) =
     (if c = d then [] # split_on d cs
      else (case split_on d cs of
              [] \<Rightarrow> [[c]]
            | x # xs \<Rightarrow> (c # x) # xs))"

text \<open>\<open>parts.join(sep)\<close>.\<close>

fun join_with :: "string \<Rightarrow> string list \<Rightarrow> string" where
  "join_with sep [] = []"
| "join_with sep [x] = x"
| "join_with sep (x # y # ys) = x @ sep @ join_with sep (y # ys)"

text \<open>\<open>s.startsWith(p)\<close> is \<^const>\<open>prefix\<close>; \<open>s.includes(p)\<close> is a prefix of some suffix.\<close>

definition str_includes :: "string \<Rightarrow> string \<Rightarrow> bool" where
  "str_includes s p = (\<exists>r \<in> set (suffixes s). prefix p r)"

section \<open>Repository coordinate (run-deploy handler, lines 418-426)\<close>

text \<open>
  \<open>regHost\<close> and \<open>repoName\<close> start as the supplied string and the service name; when the
  string splits on \<open>/\<close> into more than one part, the first part is the host and the
  remaining parts, joined again, the repository.
\<close>

definition split_coordinate :: "string \<Rightarrow> string \<Rightarrow> string \<times> string" where
  "split_coordinate registryUrl serviceName =
     (let parts = split_on CHR ''/'' registryUrl
      in if length parts > 1
         then (hd parts, join_with ''/'' (tl parts))
         else (registryUrl, serviceName))"

text \<open>The identifier used for the manifest search and the tag patch:
  \<open>repoName.split('/').pop()\<close>.\<close>

definition identifier_of :: "string \<Rightarrow> string" where
  "identifier_of repoName = last (split_on CHR ''/'' repoName)"

section \<open>Paths and the disk\<close>

text \<open>
  A path is the list of its segments below the root, already normalised. \<open>path.join\<close>
  (POSIX) splits the joined text on \<open>/\<close>, drops empty and \<open>.\<close> segments and lets
  \<open>..\<close> remove the segment before it; at the root \<open>..\<close> stays at the root.
\<close>

type_synonym path = "string list"

fun norm_segs :: "path \<Rightarrow> string list \<Rightarrow> path" where
  "norm_segs acc [] = acc"
| "norm_segs acc (x # xs) =
     (if x = [] \<or> x = ''.'' then norm_segs acc xs
      else if x = ''..'' then norm_segs (butlast acc) xs
      else norm_segs (acc @ [x]) xs)"

definition path_join :: "path \<Rightarrow> string \<Rightarrow> path" where
  "path_join base name = norm_segs base (split_on CHR ''/'' name)"

definition dirname :: "path \<Rightarrow> path" where
  "dirname p = butlast p"

datatype fnode = FDir | FFile string

text \<open>The disk: the nodes that exist, by path. The root always exists and is a directory.\<close>

type_synonym fsys = "(path \<times> fnode) list"

definition pathExists :: "fsys \<Rightarrow> path \<Rightarrow> bool" where
  "pathExists fs p = (p = [] \<or> map_of fs p \<noteq> None)"

definition isDirectory :: "fsys \<Rightarrow> path \<Rightarrow> bool" where
  "isDirectory fs p = (p = [] \<or> map_of fs p = Some FDir)"

section \<open>Errors, HTTP messages and the client state\<close>

record response =
  status :: nat
  resp_headers :: "(string \<times> string) list"
  data_token :: "string option"
  data_json :: string

text \<open>
  \<open>resp_headers\<close> has the header names in lower case, as axios delivers them.
  \<open>data_token\<close> is \<open>response.data.token\<close> (\<open>None\<close> when the body is missing or has no such
  member) and \<open>data_json\<close> the text \<open>JSON.stringify(response.data)\<close>.
\<close>

datatype error =
    AxiosError "response option" string
  | Error string
  | TypeError string
  | FsError string
  | GitError string "string option"
  | Unsettled

text \<open>
  \<open>AxiosError r m\<close> is a rejected axios call: \<open>err.response\<close> is \<open>r\<close> (absent on a network
  failure), \<open>err.message\<close> is \<open>m\<close>. \<open>GitError m d\<close> is an error of isomorphic-git with its
  message and the text of its \<open>data\<close> member, if it has one. \<open>Unsettled\<close> stands for a
  promise that neither resolves nor rejects.
\<close>

fun err_response :: "error \<Rightarrow> response option" where
  "err_response (AxiosError r m) = r"
| "err_response e = None"

fun err_message :: "error \<Rightarrow> string" where
  "err_message (AxiosError r m) = m"
| "err_message (Error m) = m"
| "err_message (TypeError m) = m"
| "err_message (FsError m) = m"
| "err_message (GitError m d) = m"
| "err_message Unsettled = []"

datatype hval = HStr string | HNum nat

type_synonym headers = "(string \<times> hval) list"

record request =
  req_method :: string
  req_url :: string
  req_headers :: headers
  req_data :: "string option"

text \<open>
  The fields of a \<open>RegistryClient\<close> (\<open>registryUrl\<close>, \<open>authHeader\<close>, \<open>token\<close>) together with
  what the run acts on: the lines given to the logger, the HTTP requests issued so far and
  the disk.
\<close>

record state =
  registryUrl :: string
  authHeader :: "string option"
  token :: "string option"
  logged :: "string list"
  sent :: "request list"
  disk :: fsys

text \<open>
  What the code takes from outside. \<open>net\<close> is the network: the outcome of an axios call,
  given the requests issued before it and the request itself (axios rejects with an error or
  resolves with a response). The other fields are library functions and readings of the
  environment.
\<close>

record tar_entry =
  header_name :: string
  header_type :: string
  contents :: string

text \<open>One image descriptor of the index \<open>manifest.json\<close>: its \<open>Config\<close> and \<open>Layers\<close> members,
  \<open>None\<close> when the member is missing.\<close>

record image_meta =
  im_Config :: "string option"
  im_Layers :: "string list option"

record descriptor =
  mediaType :: string
  d_size :: nat
  d_digest :: string

record manifest =
  schemaVersion :: nat
  m_mediaType :: string
  m_config :: descriptor
  m_layers :: "descriptor list"

record env =
  net :: "request list \<Rightarrow> request \<Rightarrow> error + response"
  base64 :: "string \<Rightarrow> string"
  sha256hex :: "string \<Rightarrow> string"
  untar :: "string \<Rightarrow> tar_entry list \<times> error option"
  parse_index :: "string \<Rightarrow> error + image_meta list"
  stringify_manifest :: "manifest \<Rightarrow> string"
  show_nat :: "nat \<Rightarrow> string"
  mb_fixed2 :: "nat \<Rightarrow> string"
  os_tmpdir :: path
  push_now :: nat
  cwd :: path
  app_temp :: path
  clone_now :: nat
  git_clone :: "string \<Rightarrow> string option \<Rightarrow> string option \<Rightarrow> (path \<times> string) list \<times> error option"
  git_add :: "fsys \<Rightarrow> path \<Rightarrow> string \<Rightarrow> error option"
  git_commit :: "fsys \<Rightarrow> path \<Rightarrow> string \<Rightarrow> string \<Rightarrow> error option"
  git_push :: "fsys \<Rightarrow> path \<Rightarrow> string option \<Rightarrow> string option \<Rightarrow> error option"

text \<open>
  \<open>sha256hex\<close> is \<open>crypto.createHash('sha256').update(b).digest('hex')\<close>; \<open>untar\<close> gives the
  entries tar-stream delivers for the bytes of an archive, in order, and the error the stream
  ends with, if any; \<open>parse_index\<close> is the JSON parse of the index, an array of image
  descriptors (an empty list when the document has no first element);
  \<open>stringify_manifest\<close> is \<open>JSON.stringify(payload, null, 2)\<close>; \<open>show_nat\<close> is the text of a
  number in a template literal; \<open>mb_fixed2 n\<close> is \<open>(n / 1024 / 1024).toFixed(2)\<close>;
  \<open>os_tmpdir\<close> is \<open>os.tmpdir()\<close>, \<open>push_now\<close> the value of \<open>Date.now()\<close> read by
  \<open>pushTarball\<close>, \<open>cwd\<close> the working directory, \<open>app_temp\<close> is \<open>app.getPath('temp')\<close> and
  \<open>clone_now\<close> the value of \<open>Date.now()\<close> read by the handler. The \<open>git_\<close> fields are
  isomorphic-git: \<open>git_clone url user pass\<close> gives the files the clone writes below its
  directory, in order, by their path below it, and the error it ends with, if any;
  \<open>git_add\<close>, \<open>git_commit\<close> and \<open>git_push\<close> succeed or fail, and what they write inside
  the repository's metadata is not part of the disk of the model.
\<close>

type_synonym 'a result = "(error + 'a) \<times> state"

text \<open>\<open>await\<close>: a rejection propagates, a value is passed on.\<close>

definition andThen :: "'a result \<Rightarrow> ('a \<Rightarrow> state \<Rightarrow> 'b result) \<Rightarrow> 'b result" where
  "andThen r k = (case r of (Inl e, s) \<Rightarrow> (Inl e, s) | (Inr x, s) \<Rightarrow> k x s)"

definition log :: "string \<Rightarrow> state \<Rightarrow> state" where
  "log msg s = s\<lparr>logged := logged s @ [msg]\<rparr>"

definition axios :: "env \<Rightarrow> request \<Rightarrow> state \<Rightarrow> response result" where
  "axios env rq s = (net env (sent s) rq, s\<lparr>sent := sent s @ [rq]\<rparr>)"

section \<open>Registry transport (registry.js, lines 15-89)\<close>

text \<open>\<open>toLowerCase\<close> on the letters A to Z.\<close>

definition to_lower :: "char \<Rightarrow> char" where
  "to_lower c = (let n = (of_char c :: nat) in if 65 \<le> n \<and> n \<le> 90 then char_of (n + 32) else c)"

text \<open>
  \<open>s.match(/key="([^"]+)"/)\<close>: the first group of the leftmost match. At a position the
  match needs \<open>key="\<close>, then at least one character other than the quote, then the quote.
\<close>

definition quoted_at :: "string \<Rightarrow> string \<Rightarrow> string option" where
  "quoted_at key s =
     (if prefix (key @ [CHR ''='', CHR 0x22]) s
      then (let r = drop (length key + 2) s;
                v = takeWhile (\<lambda>c. c \<noteq> CHR 0x22) r
            in if v \<noteq> [] \<and> dropWhile (\<lambda>c. c \<noteq> CHR 0x22) r \<noteq> [] then Some v else None)
      else None)"

fun match_quoted :: "string \<Rightarrow> string \<Rightarrow> string option" where
  "match_quoted key [] = quoted_at key []"
| "match_quoted key (c # cs) =
     (case quoted_at key (c # cs) of
        Some v \<Rightarrow> Some v
      | None \<Rightarrow> match_quoted key cs)"

text \<open>\<open>headers['Authorization'] = this.authHeader\<close> under \<open>if (this.authHeader)\<close>.\<close>

definition with_auth :: "string option \<Rightarrow> headers \<Rightarrow> headers" where
  "with_auth a hs =
     (case a of
        None \<Rightarrow> hs
      | Some h \<Rightarrow> if h \<noteq> [] then AList.update ''Authorization'' (HStr h) hs else hs)"

definition or_empty :: "string option \<Rightarrow> string" where
  "or_empty v = (case v of None \<Rightarrow> [] | Some x \<Rightarrow> x)"

text \<open>Lines 62-84: the challenge is a Bearer one; \<open>err\<close> is the rejection of the first call.\<close>

definition token_url :: "string \<Rightarrow> string \<Rightarrow> string" where
  "token_url realm authChallenge =
     realm @ ''?service='' @ or_empty (match_quoted ''service'' authChallenge)
           @ ''&scope='' @ or_empty (match_quoted ''scope'' authChallenge)"

definition token_request :: "string option \<Rightarrow> string \<Rightarrow> request" where
  "token_request a tokenUrl =
     \<lparr>req_method = ''GET'', req_url = tokenUrl, req_headers = with_auth a [], req_data = None\<rparr>"

definition retry_request :: "request \<Rightarrow> string \<Rightarrow> request" where
  "retry_request config t =
     config\<lparr>req_headers := AList.update ''Authorization'' (HStr (''Bearer '' @ t)) (req_headers config)\<rparr>"

definition bearer_challenge :: "env \<Rightarrow> request \<Rightarrow> error \<Rightarrow> string \<Rightarrow> state \<Rightarrow> response result" where
  "bearer_challenge env config err authChallenge s =
     (case match_quoted ''realm'' authChallenge of
        None \<Rightarrow> (Inl err, s)
      | Some realm \<Rightarrow>
          andThen (axios env (token_request (authHeader s) (token_url realm authChallenge)) s)
            (\<lambda>tokenResp s1.
               case data_token tokenResp of
                 None \<Rightarrow> (Inl err, s1)
               | Some t \<Rightarrow>
                   if t \<noteq> []
                   then axios env (retry_request config t)
                          (s1\<lparr>token := Some t, authHeader := Some (''Bearer '' @ t)\<rparr>)
                   else (Inl err, s1)))"

definition first_request :: "state \<Rightarrow> string \<Rightarrow> string \<Rightarrow> string option \<Rightarrow> headers \<Rightarrow> request" where
  "first_request s method endpoint body hdrs =
     \<lparr>req_method = method, req_url = registryUrl s @ endpoint,
      req_headers = with_auth (authHeader s) hdrs, req_data = body\<rparr>"

definition request :: "env \<Rightarrow> string \<Rightarrow> string \<Rightarrow> string option \<Rightarrow> headers \<Rightarrow> state \<Rightarrow> response result" where
  "request env method endpoint body hdrs s =
     (let config = first_request s method endpoint body hdrs
      in case axios env config s of
           (Inr resp, s1) \<Rightarrow> (Inr resp, s1)
         | (Inl err, s1) \<Rightarrow>
             (case err_response err of
                None \<Rightarrow> (Inl err, s1)
              | Some r \<Rightarrow>
                  if status r = 401
                  then (case map_of (resp_headers r) ''www-authenticate'' of
                          None \<Rightarrow> (Inl err, s1)
                        | Some authChallenge \<Rightarrow>
                            if authChallenge \<noteq> [] \<and> prefix ''bearer'' (map to_lower authChallenge)
                            then bearer_challenge env config err authChallenge
                                   (log ''Attempting Bearer token retrieval...'' s1)
                            else (Inl err, s1))
                  else (Inl err, s1)))"

text \<open>\<open>login\<close> (lines 15-35). The probe of \<open>/v2/\<close> only logs; its failure is caught.\<close>

definition login :: "env \<Rightarrow> string option \<Rightarrow> string option \<Rightarrow> string \<Rightarrow> state \<Rightarrow> state" where
  "login env username password url s =
     (let s1 = s\<lparr>registryUrl := (if prefix ''http'' url then url else ''http://'' @ url),
                  authHeader := (if truthy username \<and> truthy password
                                 then Some (''Basic '' @ base64 env (or_empty username @ '':'' @ or_empty password))
                                 else None)\<rparr>
      in case request env ''GET'' ''/v2/'' None [] s1 of
           (Inr resp, s2) \<Rightarrow> log ''Registry login successful (checked /v2/)'' s2
         | (Inl err, s2) \<Rightarrow> log (''Registry login check warning: '' @ err_message err) s2)"

section \<open>Disk operations\<close>

text \<open>\<open>fs.ensureDir\<close>: creates the directory and its missing ancestors; fails when a file is
  in the way.\<close>

fun mkdirs :: "fsys \<Rightarrow> path \<Rightarrow> string list \<Rightarrow> error + fsys" where
  "mkdirs fs base [] = Inr fs"
| "mkdirs fs base (x # xs) =
     (case map_of fs (base @ [x]) of
        Some (FFile c) \<Rightarrow> Inl (FsError ''EEXIST'')
      | Some FDir \<Rightarrow> mkdirs fs (base @ [x]) xs
      | None \<Rightarrow> mkdirs (AList.update (base @ [x]) FDir fs) (base @ [x]) xs)"

definition ensureDir :: "fsys \<Rightarrow> path \<Rightarrow> error + fsys" where
  "ensureDir fs p = mkdirs fs [] p"

text \<open>Writing a whole file (\<open>createWriteStream\<close> with the entry piped in, \<open>writeFileSync\<close>):
  the target must not be a directory and its parent must be one.\<close>

definition writeFile :: "fsys \<Rightarrow> path \<Rightarrow> string \<Rightarrow> error + fsys" where
  "writeFile fs p c =
     (if isDirectory fs p then Inl (FsError ''EISDIR'')
      else if \<not> isDirectory fs (dirname p) then Inl (FsError ''ENOENT'')
      else Inr (AList.update p (FFile c) fs))"

definition readFile :: "fsys \<Rightarrow> path \<Rightarrow> error + string" where
  "readFile fs p =
     (if p = [] then Inl (FsError ''EISDIR'')
      else case map_of fs p of
             None \<Rightarrow> Inl (FsError ''ENOENT'')
           | Some FDir \<Rightarrow> Inl (FsError ''EISDIR'')
           | Some (FFile c) \<Rightarrow> Inr c)"

text \<open>\<open>fs.remove\<close>, \<open>fs.rmSync\<close> with \<open>recursive\<close> and \<open>force\<close>: the node and all below it go.\<close>

definition remove :: "fsys \<Rightarrow> path \<Rightarrow> fsys" where
  "remove fs p = filter (\<lambda>(q, n). \<not> prefix p q) fs"

text \<open>A path given as text: absolute when it starts with \<open>/\<close>, otherwise below \<open>cwd\<close>.\<close>

definition resolve :: "env \<Rightarrow> string \<Rightarrow> path" where
  "resolve env p = (if prefix ''/'' p then path_join [] p else path_join (cwd env) p)"

section \<open>Archive reader (registry.js, lines 110-159)\<close>

text \<open>
  The \<open>entry\<close> handler, lines 118-135. \<open>ensureDirSync\<close> throws inside the event callback,
  where nothing catches it: the promise of the extraction then never settles. An error of
  the write stream destroys the extraction with that error, which rejects the promise.
\<close>

definition extract_entry :: "path \<Rightarrow> tar_entry \<Rightarrow> fsys \<Rightarrow> error + fsys" where
  "extract_entry tempDir e fs =
     (let outPath = path_join tempDir (header_name e)
      in if header_type e = ''directory''
         then (case ensureDir fs outPath of
                 Inl err \<Rightarrow> Inl Unsettled
               | Inr fs1 \<Rightarrow> Inr fs1)
         else (case ensureDir fs (dirname outPath) of
                 Inl err \<Rightarrow> Inl Unsettled
               | Inr fs1 \<Rightarrow> writeFile fs1 outPath (contents e)))"

fun extract_entries :: "path \<Rightarrow> tar_entry list \<Rightarrow> fsys \<Rightarrow> (error + unit) \<times> fsys" where
  "extract_entries tempDir [] fs = (Inr (), fs)"
| "extract_entries tempDir (e # es) fs =
     (case extract_entry tempDir e fs of
        Inl err \<Rightarrow> (Inl err, fs)
      | Inr fs1 \<Rightarrow> extract_entries tempDir es fs1)"

text \<open>
  Lines 115-139. The archive is read from \<open>tarPath\<close>; when it cannot be read the read
  stream fails without a listener and the promise stays unsettled. The entries are
  extracted in order; after them the error of the stream, if any, rejects.
\<close>

definition extract_archive :: "env \<Rightarrow> string \<Rightarrow> path \<Rightarrow> fsys \<Rightarrow> (error + unit) \<times> fsys" where
  "extract_archive env tarPath tempDir fs =
     (case readFile fs (resolve env tarPath) of
        Inl err \<Rightarrow> (Inl Unsettled, fs)
      | Inr bytes \<Rightarrow>
          (case extract_entries tempDir (fst (untar env bytes)) fs of
             (Inl err, fs1) \<Rightarrow> (Inl err, fs1)
           | (Inr u, fs1) \<Rightarrow>
               (case snd (untar env bytes) of
                  Some err \<Rightarrow> (Inl err, fs1)
                | None \<Rightarrow> (Inr (), fs1))))"

definition tempDir_of :: "env \<Rightarrow> path" where
  "tempDir_of env = path_join (os_tmpdir env) (''sth-deploy-'' @ show_nat env (push_now env))"

text \<open>Lines 141-153: the index is read; its first descriptor is the image.\<close>

definition read_index :: "env \<Rightarrow> path \<Rightarrow> fsys \<Rightarrow> error + image_meta" where
  "read_index env tempDir fs =
     (if \<not> pathExists fs (path_join tempDir ''manifest.json'')
      then Inl (Error ''manifest.json not found in tarball. Is this a valid docker save archive?'')
      else case readFile fs (path_join tempDir ''manifest.json'') of
             Inl err \<Rightarrow> Inl err
           | Inr text \<Rightarrow>
               (case parse_index env text of
                  Inl err \<Rightarrow> Inl err
                | Inr [] \<Rightarrow> Inl (Error ''Empty manifest.json'')
                | Inr (imageMeta # others) \<Rightarrow> Inr imageMeta))"

text \<open>Lines 155-159 and the use of the names at line 234: a missing \<open>Layers\<close> fails at the
  second log line, a missing \<open>Config\<close> at the \<open>path.join\<close> of the config file.\<close>

definition index_file_names :: "env \<Rightarrow> image_meta \<Rightarrow> state \<Rightarrow> (string \<times> string list) result" where
  "index_file_names env imageMeta s =
     (let s1 = log (''Found image config: '' @
                      (case im_Config imageMeta of None \<Rightarrow> ''undefined'' | Some c \<Rightarrow> c)) s
      in case im_Layers imageMeta of
           None \<Rightarrow> (Inl (TypeError ''Cannot read properties of undefined (reading length)''), s1)
         | Some layerFilenames \<Rightarrow>
             (let s2 = log (''Found '' @ show_nat env (length layerFilenames) @ '' layers.'') s1
              in case im_Config imageMeta of
                   None \<Rightarrow> (Inl (TypeError ''The path argument must be of type string''), s2)
                 | Some configFilename \<Rightarrow> (Inr (configFilename, layerFilenames), s2)))"

section \<open>Blob pusher (registry.js, lines 168-231)\<close>

record blob =
  blob_digest :: string
  blob_size :: nat

text \<open>Lines 188-230: the upload, once the existence check has not succeeded.\<close>

definition upload_url :: "string \<Rightarrow> string \<Rightarrow> string \<Rightarrow> string" where
  "upload_url regUrl uploadLocation dig =
     (let uploadUrl = (if prefix ''http'' uploadLocation then uploadLocation
                       else regUrl @ (if prefix ''/'' uploadLocation then [] else ''/'') @ uploadLocation);
          separator = (if CHR ''?'' \<in> set uploadUrl then ''&'' else ''?'')
      in uploadUrl @ separator @ ''digest='' @ dig)"

definition upload_request :: "state \<Rightarrow> string \<Rightarrow> string \<Rightarrow> string \<Rightarrow> request" where
  "upload_request s uploadLocation dig fileBuffer =
     \<lparr>req_method = ''PUT'',
      req_url = upload_url (registryUrl s) uploadLocation dig,
      req_headers = with_auth (authHeader s)
                      [(''Content-Type'', HStr ''application/octet-stream''),
                       (''Content-Length'', HNum (length fileBuffer))],
      req_data = Some fileBuffer\<rparr>"

definition uploadBlob :: "env \<Rightarrow> string \<Rightarrow> string \<Rightarrow> string \<Rightarrow> state \<Rightarrow> blob result" where
  "uploadBlob env repository dig fileBuffer s =
     andThen (request env ''POST'' (''/v2/'' @ repository @ ''/blobs/uploads/'') None []
                (log (''Uploading blob '' @ take 12 dig @ '' ('' @ mb_fixed2 env (length fileBuffer) @ '' MB)...'') s))
       (\<lambda>initResp s1.
          case map_of (resp_headers initResp) ''location'' of
            None \<Rightarrow> (Inl (TypeError ''Cannot read properties of undefined (reading startsWith)''), s1)
          | Some uploadLocation \<Rightarrow>
              andThen (axios env (upload_request s1 uploadLocation dig fileBuffer) s1)
                (\<lambda>putResp s2.
                   (Inr \<lparr>blob_digest = dig, blob_size = length fileBuffer\<rparr>,
                    log (''Upload complete: '' @ take 12 dig) s2)))"

definition pushBlob :: "env \<Rightarrow> string \<Rightarrow> path \<Rightarrow> state \<Rightarrow> blob result" where
  "pushBlob env repository filePath s =
     (case readFile (disk s) filePath of
        Inl err \<Rightarrow> (Inl err, s)
      | Inr fileBuffer \<Rightarrow>
          (let dig = ''sha256:'' @ sha256hex env fileBuffer
           in case request env ''HEAD'' (''/v2/'' @ repository @ ''/blobs/'' @ dig) None []
                     (log (''Checking blob '' @ take 12 dig @ ''...'') s) of
                (Inr resp, s1) \<Rightarrow>
                  (Inr \<lparr>blob_digest = dig, blob_size = length fileBuffer\<rparr>,
                   log (''Blob '' @ take 12 dig @ '' already exists.'') s1)
              | (Inl err, s1) \<Rightarrow>
                  uploadBlob env repository dig fileBuffer
                    (case err_response err of
                       None \<Rightarrow> s1
                     | Some r \<Rightarrow>
                         if status r \<noteq> 404
                         then log (''Warning checking blob: '' @ err_message err) s1
                         else s1)))"

text \<open>Lines 238-243: the layers, one after the other, in the order of the index.\<close>

fun pushLayers :: "env \<Rightarrow> string \<Rightarrow> path \<Rightarrow> string list \<Rightarrow> blob list \<Rightarrow> state \<Rightarrow> blob list result" where
  "pushLayers env repository tempDir [] layerResults s = (Inr layerResults, s)"
| "pushLayers env repository tempDir (layerFile # rest) layerResults s =
     andThen (pushBlob env repository (path_join tempDir layerFile) s)
       (\<lambda>res s1. pushLayers env repository tempDir rest (layerResults @ [res]) s1)"

section \<open>Manifest publisher and \<open>pushTarball\<close> (registry.js, lines 91-337)\<close>

definition manifestPayload :: "blob \<Rightarrow> blob list \<Rightarrow> manifest" where
  "manifestPayload configResult layerResults =
     \<lparr>schemaVersion = 2,
      m_mediaType = ''application/vnd.docker.distribution.manifest.v2+json'',
      m_config = \<lparr>mediaType = ''application/vnd.docker.container.image.v1+json'',
                  d_size = blob_size configResult, d_digest = blob_digest configResult\<rparr>,
      m_layers = map (\<lambda>l. \<lparr>mediaType = ''application/vnd.docker.image.rootfs.diff.tar.gzip'',
                               d_size = blob_size l, d_digest = blob_digest l\<rparr>) layerResults\<rparr>"

definition manifest_headers :: "string option \<Rightarrow> string \<Rightarrow> headers" where
  "manifest_headers a finalManifestData =
     with_auth a [(''Content-Type'', HStr ''application/vnd.docker.distribution.manifest.v2+json''),
                  (''Content-Length'', HNum (length finalManifestData))]"

text \<open>Lines 306-333: the PUT of the manifest inside its \<open>try\<close>; the \<open>catch\<close> logs and rethrows.\<close>

definition pushManifest :: "env \<Rightarrow> string \<Rightarrow> string \<Rightarrow> manifest \<Rightarrow> state \<Rightarrow> unit result" where
  "pushManifest env repository tag payload s =
     (let s1 = log (''Pushing manifest to '' @ repository @ '':'' @ tag @ ''...'') s;
          finalManifestData = stringify_manifest env payload;
          hdrs = manifest_headers (authHeader s1) finalManifestData;
          s2 = log (''Manifest payload: '' @ finalManifestData) s1
      in case request env ''PUT'' (''/v2/'' @ repository @ ''/manifests/'' @ tag)
                (Some finalManifestData) hdrs s2 of
           (Inr resp, s3) \<Rightarrow>
             (Inr (), log (''Successfully pushed manifest. Digest: sha256:'' @ sha256hex env finalManifestData) s3)
         | (Inl err, s3) \<Rightarrow>
             (Inl err,
              (case err_response err of
                 None \<Rightarrow> log (''Error pushing manifest: '' @ err_message err) s3
               | Some r \<Rightarrow>
                   log (''Server responded: '' @ data_json r)
                     (log (''Error pushing manifest: '' @ err_message err) s3))))"

text \<open>Lines 233-333: config blob, layers, manifest.\<close>

definition pushBlobsAndManifest :: "env \<Rightarrow> string \<Rightarrow> string \<Rightarrow> path \<Rightarrow> string \<Rightarrow> string list \<Rightarrow> state \<Rightarrow> unit result" where
  "pushBlobsAndManifest env repository tag tempDir configFilename layerFilenames s =
     andThen (pushBlob env repository (path_join tempDir configFilename) s)
       (\<lambda>configResult s1.
          andThen (pushLayers env repository tempDir layerFilenames [] s1)
            (\<lambda>layerResults s2.
               pushManifest env repository tag (manifestPayload configResult layerResults)
                 (log ''Constructing manifest...'' s2)))"

text \<open>
  \<open>pushTarball\<close>. The removal of the temporary directory is the last statement, after the
  \<open>try\<close> around the manifest PUT; no statement of the function runs after a rejection.
\<close>

definition pushTarball :: "env \<Rightarrow> string \<Rightarrow> string \<Rightarrow> string \<Rightarrow> state \<Rightarrow> unit result" where
  "pushTarball env tarPath repository tag s =
     (let s0 = log (''Reading tarball from '' @ tarPath @ ''...'') s;
          tempDir = tempDir_of env
      in case ensureDir (disk s0) tempDir of
           Inl err \<Rightarrow> (Inl err, s0)
         | Inr fs1 \<Rightarrow>
             (let s1 = log (''Extracting to temporary directory: /'' @ join_with ''/'' tempDir) (s0\<lparr>disk := fs1\<rparr>)
              in case extract_archive env tarPath tempDir (disk s1) of
                   (Inl err, fs2) \<Rightarrow> (Inl err, s1\<lparr>disk := fs2\<rparr>)
                 | (Inr u, fs2) \<Rightarrow>
                     (case read_index env tempDir fs2 of
                        Inl err \<Rightarrow> (Inl err, s1\<lparr>disk := fs2\<rparr>)
                      | Inr imageMeta \<Rightarrow>
                          andThen (index_file_names env imageMeta (s1\<lparr>disk := fs2\<rparr>))
                            (\<lambda>(configFilename, layerFilenames) s2.
                               andThen (pushBlobsAndManifest env repository tag tempDir
                                          configFilename layerFilenames s2)
                                 (\<lambda>u s3. (Inr (), s3\<lparr>disk := remove (disk s3) tempDir\<rparr>))))))"

section \<open>Tag patcher (\<open>updateYaml\<close>, lines 572-581)\<close>

text \<open>
  The pattern is \<open>new RegExp(`(image:\\s+.*${identifier}:)(.*)`, 'g')\<close>. The identifier is
  taken as literal text: the model covers the identifiers without a character that is
  special in a regular expression. \<open>\\s\<close> matches the white space and line terminator code
  units; \<open>.\<close> matches every code unit except the line terminators.
\<close>

definition is_space :: "char \<Rightarrow> bool" where
  "is_space c = ((of_char c :: nat) \<in> {9, 10, 11, 12, 13, 32, 160})"

definition is_line_terminator :: "char \<Rightarrow> bool" where
  "is_line_terminator c = ((of_char c :: nat) \<in> {10, 13})"

definition plain_identifier :: "string \<Rightarrow> bool" where
  "plain_identifier identifier =
     (\<forall>c \<in> set identifier.
        let n = (of_char c :: nat)
        in (48 \<le> n \<and> n \<le> 57) \<or> (65 \<le> n \<and> n \<le> 90) \<or> (97 \<le> n \<and> n \<le> 122)
           \<or> c = CHR ''-'' \<or> c = CHR ''_'')"

definition lit_here :: "string \<Rightarrow> string \<Rightarrow> (string \<times> string) option" where
  "lit_here lit s = (if prefix lit s then Some (lit, drop (length lit) s) else None)"

text \<open>
  \<open>.*\<close> followed by the literal, matched at the start of the text: the greedy star first
  takes one more character and tries the rest; only when that fails is the literal tried
  here. The result is the matched text and what follows it.
\<close>

fun dots_then_lit :: "string \<Rightarrow> string \<Rightarrow> (string \<times> string) option" where
  "dots_then_lit lit [] = lit_here lit []"
| "dots_then_lit lit (c # cs) =
     (case (if is_line_terminator c then None else dots_then_lit lit cs) of
        Some (m, r) \<Rightarrow> Some (c # m, r)
      | None \<Rightarrow> lit_here lit (c # cs))"

text \<open>\<open>\\s*\<close> followed by \<open>.*\<close> and the literal, with the same priority for the longer run.\<close>

fun spaces_then :: "string \<Rightarrow> string \<Rightarrow> (string \<times> string) option" where
  "spaces_then lit [] = dots_then_lit lit []"
| "spaces_then lit (c # cs) =
     (case (if is_space c then spaces_then lit cs else None) of
        Some (m, r) \<Rightarrow> Some (c # m, r)
      | None \<Rightarrow> dots_then_lit lit (c # cs))"

text \<open>The first group \<open>(image:\\s+.*identifier:)\<close> at the start of the text.\<close>

definition group1_at :: "string \<Rightarrow> string \<Rightarrow> (string \<times> string) option" where
  "group1_at identifier s =
     (if prefix ''image:'' s
      then (case drop 6 s of
              [] \<Rightarrow> None
            | c # cs \<Rightarrow>
                if is_space c
                then (case spaces_then (identifier @ '':'') cs of
                        None \<Rightarrow> None
                      | Some (m, r) \<Rightarrow> Some (''image:'' @ c # m, r))
                else None)
      else None)"

text \<open>The whole pattern at the start of the text: both groups and the text after the match.
  The second group \<open>(.*)\<close> runs to the end of the line.\<close>

definition match_at :: "string \<Rightarrow> string \<Rightarrow> (string \<times> string \<times> string) option" where
  "match_at identifier s =
     (case group1_at identifier s of
        None \<Rightarrow> None
      | Some (g1, r) \<Rightarrow>
          Some (g1, takeWhile (\<lambda>c. \<not> is_line_terminator c) r,
                dropWhile (\<lambda>c. \<not> is_line_terminator c) r))"

text \<open>
  The replacement text of \<open>String.prototype.replace\<close> for a template (GetSubstitution):
  \<open>$$\<close>, \<open>$&\<close>, \<open>$`\<close>, \<open>$'\<close>, \<open>$n\<close> and \<open>$nn\<close>. A two-digit reference beyond the number of
  groups is a one-digit reference followed by a digit; a reference to no group stays as it
  is written. There are no named groups.
\<close>

definition is_digit :: "char \<Rightarrow> bool" where
  "is_digit c = (48 \<le> (of_char c :: nat) \<and> (of_char c :: nat) \<le> 57)"

definition digit_val :: "char \<Rightarrow> nat" where
  "digit_val c = of_char c - 48"

fun get_substitution :: "string \<Rightarrow> string \<Rightarrow> string \<Rightarrow> string list \<Rightarrow> string \<Rightarrow> string" where
  "get_substitution matched preceding following captures [] = []"
| "get_substitution matched preceding following captures (c # t) =
     (if c \<noteq> CHR ''$'' then c # get_substitution matched preceding following captures t
      else (case t of
              [] \<Rightarrow> [c]
            | d # t1 \<Rightarrow>
                if d = CHR ''$'' then CHR ''$'' # get_substitution matched preceding following captures t1
                else if d = CHR ''&'' then matched @ get_substitution matched preceding following captures t1
                else if d = CHR 0x60 then preceding @ get_substitution matched preceding following captures t1
                else if d = CHR 0x27 then following @ get_substitution matched preceding following captures t1
                else if is_digit d
                then (case t1 of
                        [] \<Rightarrow>
                          (if 1 \<le> digit_val d \<and> digit_val d \<le> length captures
                           then captures ! (digit_val d - 1)
                           else [c, d])
                      | d2 # t2 \<Rightarrow>
                          if is_digit d2 \<and> 10 * digit_val d + digit_val d2 \<le> length captures
                          then (if 1 \<le> 10 * digit_val d + digit_val d2
                                then captures ! (10 * digit_val d + digit_val d2 - 1)
                                       @ get_substitution matched preceding following captures t2
                                else c # d # d2 # get_substitution matched preceding following captures t2)
                          else (if 1 \<le> digit_val d \<and> digit_val d \<le> length captures
                                then captures ! (digit_val d - 1)
                                       @ get_substitution matched preceding following captures t1
                                else c # d # get_substitution matched preceding following captures t1))
                else c # get_substitution matched preceding following captures t))"

lemma lit_here_length:
  "lit_here lit s = Some (m, r) \<Longrightarrow> length s = length m + length r"
  by (auto simp: lit_here_def prefix_def split: if_splits)

lemma dots_then_lit_length:
  "dots_then_lit lit s = Some (m, r) \<Longrightarrow> length s = length m + length r"
proof (induction s arbitrary: m r)
  case Nil
  then show ?case by (auto dest: lit_here_length)
next
  case (Cons c cs)
  then show ?case
    by (auto split: option.splits if_splits dest: lit_here_length)
qed

lemma spaces_then_length:
  "spaces_then lit s = Some (m, r) \<Longrightarrow> length s = length m + length r"
proof (induction s arbitrary: m r)
  case Nil
  then show ?case by (auto dest: lit_here_length)
next
  case (Cons c cs)
  then show ?case
    by (auto simp del: dots_then_lit.simps split: option.splits if_splits
             dest: dots_then_lit_length)
qed

lemma group1_at_length:
  assumes "group1_at identifier s = Some (g1, r)"
  shows "length r < length s"
proof -
  from assms obtain c cs m where s: "s = ''image:'' @ c # cs"
    and m: "spaces_then (identifier @ '':'') cs = Some (m, r)"
    by (auto simp: group1_at_def prefix_def split: if_splits list.splits option.splits)
  from spaces_then_length[OF m] s show ?thesis by simp
qed

lemma match_at_shorter:
  assumes "match_at identifier s = Some (g1, g2, rest)"
  shows "length rest < length s"
proof -
  from assms obtain r where g: "group1_at identifier s = Some (g1, r)"
    and rest: "rest = dropWhile (\<lambda>c. \<not> is_line_terminator c) r"
    by (auto simp: match_at_def split: option.splits)
  have "length rest \<le> length r"
    unfolding rest by (rule length_dropWhile_le)
  with group1_at_length[OF g] show ?thesis by simp
qed

text \<open>
  \<open>content.replace(pattern, template)\<close> with the \<open>g\<close> flag: the matches are found from left
  to right, each search starting where the last match ended; the text between the matches
  is kept. \<open>preceding\<close> is the text of the content in front of the current position.
\<close>

function replace_matches :: "string \<Rightarrow> string \<Rightarrow> string \<Rightarrow> string \<Rightarrow> string" where
  "replace_matches identifier template preceding s =
     (case match_at identifier s of
        Some (g1, g2, rest) \<Rightarrow>
          get_substitution (g1 @ g2) preceding rest [g1, g2] template
            @ replace_matches identifier template (preceding @ g1 @ g2) rest
      | None \<Rightarrow>
          (case s of
             [] \<Rightarrow> []
           | c # cs \<Rightarrow> c # replace_matches identifier template (preceding @ [c]) cs))"
  by pat_completeness auto
termination
  by (relation "measure (\<lambda>(identifier, template, preceding, s). length s)")
     (auto dest: match_at_shorter)

definition replace_image_tag :: "string \<Rightarrow> string \<Rightarrow> string \<Rightarrow> string" where
  "replace_image_tag identifier newTag content =
     replace_matches identifier (''$1'' @ newTag) [] content"

definition updateYaml :: "path \<Rightarrow> string \<Rightarrow> string \<Rightarrow> state \<Rightarrow> unit result" where
  "updateYaml filePath identifier newTag s =
     (case readFile (disk s) filePath of
        Inl err \<Rightarrow> (Inl err, s)
      | Inr content \<Rightarrow>
          (case writeFile (disk s) filePath (replace_image_tag identifier newTag content) of
             Inl err \<Rightarrow> (Inl err, s)
           | Inr fs1 \<Rightarrow> (Inr (), s\<lparr>disk := fs1\<rparr>)))"

section \<open>Manifest locator (lines 457-486 and 541-570)\<close>

text \<open>\<open>fs.readdirSync\<close>: the names of the nodes directly below a directory, each once,
  sorted by name (code unit by code unit, a proper prefix first).\<close>

definition readdir :: "fsys \<Rightarrow> path \<Rightarrow> string list" where
  "readdir fs p =
     sort (remdups (map (\<lambda>(q, n). last q) (filter (\<lambda>(q, n). q \<noteq> [] \<and> butlast q = p) fs)))"

lemma filter_length_less:
  "\<forall>x \<in> set xs. P x \<longrightarrow> Q x \<Longrightarrow> \<exists>x \<in> set xs. Q x \<and> \<not> P x \<Longrightarrow>
   length (filter P xs) < length (filter Q xs)"
proof (induction xs)
  case Nil
  then show ?case by simp
next
  case (Cons x xs)
  have le: "length (filter P xs) \<le> length (filter Q xs)"
    using Cons.prems(1)
    by (induction xs) auto
  show ?case
  proof (cases "\<exists>y \<in> set xs. Q y \<and> \<not> P y")
    case True
    with Cons have "length (filter P xs) < length (filter Q xs)" by simp
    with Cons.prems(1) show ?thesis by auto
  next
    case False
    with Cons.prems(2) have "Q x \<and> \<not> P x" by auto
    with le show ?thesis by simp
  qed
qed

lemma readdir_below:
  assumes "file \<in> set (readdir fs p)"
  shows "length (filter (\<lambda>(q, n). strict_prefix (p @ [file]) q) fs)
         < length (filter (\<lambda>(q, n). strict_prefix p q) fs)"
proof (rule filter_length_less)
  show "\<forall>x \<in> set fs. (case x of (q, n) \<Rightarrow> strict_prefix (p @ [file]) q)
                          \<longrightarrow> (case x of (q, n) \<Rightarrow> strict_prefix p q)"
    by (auto simp: strict_prefix_def prefix_def)
  from assms obtain q n where qn: "(q, n) \<in> set fs" "q \<noteq> []" "butlast q = p" "last q = file"
    by (auto simp: readdir_def)
  then have "q = p @ [file]"
    by (metis append_butlast_last_id)
  with qn(1) show "\<exists>x \<in> set fs. (case x of (q, n) \<Rightarrow> strict_prefix p q)
                          \<and> \<not> (case x of (q, n) \<Rightarrow> strict_prefix (p @ [file]) q)"
    by (auto simp: strict_prefix_def prefix_def intro!: bexI[of _ "(p @ [file], n)"])
qed

text \<open>
  \<open>getAllFiles\<close>: the names of a directory in the order \<open>readdirSync\<close> gives them; a
  directory whose name includes \<open>.git\<close> is passed over, any other directory is descended
  into at once, a file is appended.
\<close>

function getAllFiles :: "fsys \<Rightarrow> path \<Rightarrow> path list \<Rightarrow> path list" where
  "getAllFiles fs dirPath arrayOfFiles =
     fold (\<lambda>file acc.
             if isDirectory fs (dirPath @ [file])
             then (if \<not> str_includes file ''.git''
                   then getAllFiles fs (dirPath @ [file]) acc
                   else acc)
             else acc @ [dirPath @ [file]])
          (readdir fs dirPath) arrayOfFiles"
  by pat_completeness auto
termination
  by (relation "measure (\<lambda>(fs, p, acc). length (filter (\<lambda>(q, n). strict_prefix p q) fs))")
     (auto dest: readdir_below)

definition path_str :: "path \<Rightarrow> string" where
  "path_str p = concat (map (\<lambda>x. ''/'' @ x) p)"

text \<open>\<open>path.relative(from, to)\<close>: the common leading segments go, each remaining segment of
  \<open>from\<close> becomes \<open>..\<close>.\<close>

fun path_relative :: "path \<Rightarrow> path \<Rightarrow> string" where
  "path_relative (b # bs) (f # fs) =
     (if b = f then path_relative bs fs
      else join_with ''/'' (map (\<lambda>x. ''..'') (b # bs) @ f # fs))"
| "path_relative bs fs = join_with ''/'' (map (\<lambda>x. ''..'') bs @ fs)"

text \<open>The loop of \<open>findYamlFile\<close> over the files, and \<open>findYamlFile\<close>; \<open>None\<close> is \<open>null\<close>.\<close>

fun findYamlLoop :: "fsys \<Rightarrow> string \<Rightarrow> path \<Rightarrow> path list \<Rightarrow> error + string option" where
  "findYamlLoop fs identifier baseDir [] = Inr None"
| "findYamlLoop fs identifier baseDir (file # files) =
     (if suffix ''.yaml'' (path_str file) \<or> suffix ''.yml'' (path_str file)
      then (case readFile fs file of
              Inl err \<Rightarrow> Inl err
            | Inr content \<Rightarrow>
                if str_includes content identifier
                then Inr (Some (path_relative baseDir file))
                else findYamlLoop fs identifier baseDir files)
      else findYamlLoop fs identifier baseDir files)"

definition findYamlFile :: "fsys \<Rightarrow> path \<Rightarrow> string \<Rightarrow> path \<Rightarrow> error + string option" where
  "findYamlFile fs dir identifier baseDir =
     findYamlLoop fs identifier baseDir (getAllFiles fs dir [])"

definition lift_disk :: "(error + 'a) \<Rightarrow> state \<Rightarrow> 'a result" where
  "lift_disk r s = (r, s)"

text \<open>Lines 457-474: the target the path hint gives, \<open>None\<close> while it is still \<open>null\<close>.\<close>

definition hinted_target :: "path \<Rightarrow> string option \<Rightarrow> string \<Rightarrow> state \<Rightarrow> string option result" where
  "hinted_target repoDir manifestPath repoName s =
     (case manifestPath of
        None \<Rightarrow> (Inr None, s)
      | Some mp \<Rightarrow>
          if mp \<noteq> [] \<and> (\<exists>c \<in> set mp. \<not> is_space c)
          then (if pathExists (disk s) (path_join repoDir mp)
                then (if isDirectory (disk s) (path_join repoDir mp)
                      then lift_disk
                             (findYamlFile (disk s) (path_join repoDir mp) (identifier_of repoName) repoDir)
                             (log (''Searching provided directory: '' @ mp) s)
                      else (Inr (Some mp), s))
                else (Inr None,
                      log (''Warning: Configured manifest path '' @ [CHR 0x27] @ mp @ [CHR 0x27]
                             @ '' not found in repo. Falling back to search.'') s))
          else (Inr None, s))"

text \<open>Lines 457-486: the hint, then the search of the whole repository while the target is
  still unset, then the error when it is unset even so.\<close>

definition locate_manifest :: "path \<Rightarrow> string option \<Rightarrow> string \<Rightarrow> string \<Rightarrow> state \<Rightarrow> string result" where
  "locate_manifest repoDir manifestPath repoName serviceName s =
     andThen (hinted_target repoDir manifestPath repoName s)
       (\<lambda>hinted s1.
          andThen (if \<not> truthy hinted
                   then lift_disk (findYamlFile (disk s1) repoDir (identifier_of repoName) repoDir)
                          (log (''Looking for YAML containing '' @ [CHR 0x22] @ identifier_of repoName
                                  @ [CHR 0x22] @ ''...'') s1)
                   else (Inr hinted, s1))
            (\<lambda>targetFilePathRelative s2.
               if \<not> truthy targetFilePathRelative
               then (Inl (Error ''YAML not found''),
                     log (''Error: Could not find YAML for '' @ serviceName) s2)
               else (Inr (or_empty targetFilePathRelative), s2)))"

section \<open>Deployment orchestrator (the \<open>run-deploy\<close> handler, lines 395-539)\<close>

record globalConfig =
  reg_username :: "string option"
  reg_password :: "string option"
  git_repo_url :: string
  username :: "string option"
  password :: "string option"

text \<open>The \<open>deploy-complete\<close> event: service name, \<open>success\<close> and, on success, the tag.\<close>

datatype report = DeployComplete string bool "string option"

definition repoDir_of :: "env \<Rightarrow> string \<Rightarrow> path" where
  "repoDir_of env serviceName =
     path_join (app_temp env) (''repo_'' @ serviceName @ ''_'' @ show_nat env (clone_now env))"

text \<open>The files of the clone are written below the directory, parents first.\<close>

fun checkout :: "path \<Rightarrow> (path \<times> string) list \<Rightarrow> fsys \<Rightarrow> (error + unit) \<times> fsys" where
  "checkout dir [] fs = (Inr (), fs)"
| "checkout dir ((rel, content) # files) fs =
     (case ensureDir fs (dirname (dir @ rel)) of
        Inl err \<Rightarrow> (Inl err, fs)
      | Inr fs1 \<Rightarrow>
          (case writeFile fs1 (dir @ rel) content of
             Inl err \<Rightarrow> (Inl err, fs1)
           | Inr fs2 \<Rightarrow> checkout dir files fs2))"

text \<open>Lines 438-454: the directory of the clone is made afresh and the repository cloned
  into it.\<close>

definition clone_repo :: "env \<Rightarrow> globalConfig \<Rightarrow> path \<Rightarrow> state \<Rightarrow> unit result" where
  "clone_repo env globalConfig repoDir s =
     (case ensureDir (if pathExists (disk s) repoDir then remove (disk s) repoDir else disk s) repoDir of
        Inl err \<Rightarrow> (Inl err, s)
      | Inr fs1 \<Rightarrow>
          (let s1 = log (''Clone URL: '' @ git_repo_url globalConfig)
                      (log ''--- Cloning Git Repo (isomorphic-git) ---'' (s\<lparr>disk := fs1\<rparr>));
               cloned = git_clone env (git_repo_url globalConfig) (username globalConfig) (password globalConfig)
           in case checkout repoDir (fst cloned) (disk s1) of
                (Inl err, fs2) \<Rightarrow> (Inl err, s1\<lparr>disk := fs2\<rparr>)
              | (Inr u, fs2) \<Rightarrow>
                  (case snd cloned of
                     Some err \<Rightarrow> (Inl err, s1\<lparr>disk := fs2\<rparr>)
                   | None \<Rightarrow> (Inr (), s1\<lparr>disk := fs2\<rparr>))))"

definition git_step :: "error option \<Rightarrow> state \<Rightarrow> unit result" where
  "git_step r s = (case r of Some err \<Rightarrow> (Inl err, s) | None \<Rightarrow> (Inr (), s))"

text \<open>Lines 488-520: the patch, then add, commit and push.\<close>

definition patch_and_push :: "env \<Rightarrow> string \<Rightarrow> string \<Rightarrow> globalConfig \<Rightarrow> path \<Rightarrow> string \<Rightarrow> string \<Rightarrow> state \<Rightarrow> unit result" where
  "patch_and_push env serviceName tag globalConfig repoDir repoName targetFilePathRelative s =
     andThen (updateYaml (path_join repoDir targetFilePathRelative) (identifier_of repoName) tag
                (log (''Modifying file: '' @ targetFilePathRelative) s))
       (\<lambda>u s1.
          andThen (git_step (git_add env (disk s1) repoDir targetFilePathRelative)
                     (log ''--- Committing and Pushing ---''
                        (log (''Updated image tag to '' @ tag @ '' in '' @ targetFilePathRelative) s1)))
            (\<lambda>u s2.
               andThen (git_step (git_commit env (disk s2) repoDir
                                    (''Deploy '' @ serviceName @ '':'' @ tag)
                                    (if truthy (username globalConfig)
                                     then or_empty (username globalConfig) else ''STH Deployer'')) s2)
                 (\<lambda>u s3.
                    git_step (git_push env (disk s3) repoDir (username globalConfig) (password globalConfig))
                      (log (''Committed: Deploy '' @ serviceName @ '':'' @ tag) s3))))"

text \<open>Lines 415-520: the body of the \<open>try\<close> once the archive is known to exist. The
  client is a new \<open>RegistryClient\<close>.\<close>

definition deploy_steps :: "env \<Rightarrow> string \<Rightarrow> string \<Rightarrow> string \<Rightarrow> globalConfig \<Rightarrow> string \<Rightarrow> string option \<Rightarrow> state \<Rightarrow> unit result" where
  "deploy_steps env serviceName tag regUrl globalConfig finalTarPath manifestPath s =
     (let regHost = fst (split_coordinate regUrl serviceName);
          repoName = snd (split_coordinate regUrl serviceName);
          s1 = log (''Repository: '' @ repoName)
                 (log (''Registry: '' @ regHost)
                    (log ''--- Authenticating with Registry ---''
                       (s\<lparr>registryUrl := [], authHeader := None, token := None\<rparr>)));
          s2 = login env (reg_username globalConfig) (reg_password globalConfig) regHost s1
      in andThen (pushTarball env finalTarPath repoName tag
                    (log ''--- Pushing Image to Registry (Docker-less) ---'' s2))
           (\<lambda>u s3.
              andThen (clone_repo env globalConfig (repoDir_of env serviceName) s3)
                (\<lambda>u s4.
                   andThen (locate_manifest (repoDir_of env serviceName) manifestPath repoName serviceName s4)
                     (\<lambda>targetFilePathRelative s5.
                        patch_and_push env serviceName tag globalConfig (repoDir_of env serviceName)
                          repoName targetFilePathRelative s5))))"

text \<open>The \<open>catch\<close>, lines 525-537: the log lines and the report of the failure.\<close>

definition log_failure :: "error \<Rightarrow> state \<Rightarrow> state" where
  "log_failure err s =
     (let s1 = log (''Error during deployment: '' @ err_message err) s
      in case err of
           AxiosError (Some r) m \<Rightarrow> log (''Details: '' @ data_json r) s1
         | GitError m (Some d) \<Rightarrow> log (''Details: '' @ d) s1
         | _ \<Rightarrow> s1)"

text \<open>
  The handler. The result is the \<open>deploy-complete\<close> event it sends, \<open>None\<close> when it never
  sends one, and the state it leaves.
\<close>

definition run_deploy :: "env \<Rightarrow> string \<Rightarrow> string \<Rightarrow> string \<Rightarrow> globalConfig \<Rightarrow> string option \<Rightarrow> string option \<Rightarrow> state \<Rightarrow> report option \<times> state" where
  "run_deploy env serviceName tag regUrl globalConfig tarPath manifestPath s =
     (let s0 = log (''--- Initiating deployment: '' @ serviceName @ '':'' @ tag @ '' ---'') s;
          finalTarPath = (if truthy tarPath then or_empty tarPath
                          else path_str (path_join (path_join (cwd env) ''images'') (serviceName @ ''.tar'')))
      in if \<not> pathExists (disk s0) (resolve env finalTarPath)
         then (Some (DeployComplete serviceName False None),
               log (''Error: Tar file not found at '' @ finalTarPath) s0)
         else (case deploy_steps env serviceName tag regUrl globalConfig finalTarPath manifestPath s0 of
                 (Inr u, s1) \<Rightarrow>
                   (Some (DeployComplete serviceName True (Some tag)),
                    log ''--- DEPLOYMENT SUCCESSFUL ---'' s1)
               | (Inl Unsettled, s1) \<Rightarrow> (None, s1)
               | (Inl err, s1) \<Rightarrow>
                   (Some (DeployComplete serviceName False None), log_failure err s1)))"

lemma split_on_nonempty: "split_on d s \<noteq> []"
  by (induction s) (auto split: list.splits)


lemma split_on_length: "length (split_on d s) = Suc (length (filter (\<lambda>c. c = d) s))"
  by (induction s) (auto split: list.splits simp: split_on_nonempty)

section \<open>Properties of the transport\<close>

definition is_bearer :: "string option \<Rightarrow> bool" where
  "is_bearer a = (case a of None \<Rightarrow> False | Some h \<Rightarrow> prefix ''Bearer '' h)"

definition carries_bearer :: "request \<Rightarrow> bool" where
  "carries_bearer rq =
     (case map_of (req_headers rq) ''Authorization'' of
        Some (HStr v) \<Rightarrow> prefix ''Bearer '' v
      | _ \<Rightarrow> False)"

subsection \<open>Example environment\<close>

text \<open>Decimal digits of a number, for the examples.\<close>

function decimal :: "nat \<Rightarrow> string" where
  "decimal n = (if n < 10 then [char_of (48 + n)] else decimal (n div 10) @ [char_of (48 + n mod 10)])"
  by pat_completeness auto
termination
  by (relation "measure id") auto

definition ok_response :: response where
  "ok_response = \<lparr>status = 200, resp_headers = [], data_token = None, data_json = ''{}''\<rparr>"

text \<open>An environment in which every request is answered with 200 and every git operation
  succeeds; the examples replace the fields they are about.\<close>

definition demo_env :: env where
  "demo_env =
     \<lparr>net = (\<lambda>hist rq. Inr ok_response),
      base64 = (\<lambda>b. b),
      sha256hex = (\<lambda>b. b),
      untar = (\<lambda>bytes. ([], None)),
      parse_index = (\<lambda>text. Inr []),
      stringify_manifest = (\<lambda>m. concat (map d_digest (m_config m # m_layers m))),
      show_nat = decimal,
      mb_fixed2 = decimal,
      os_tmpdir = [''tmp''],
      push_now = 17,
      cwd = [''app''],
      app_temp = [''tmp''],
      clone_now = 18,
      git_clone = (\<lambda>url user pass. ([], None)),
      git_add = (\<lambda>fs dir file. None),
      git_commit = (\<lambda>fs dir msg author. None),
      git_push = (\<lambda>fs dir user pass. None)\<rparr>"

definition demo_challenge :: string where
  "demo_challenge = ''Bearer realm='' @ [CHR 0x22] @ ''https://auth.local/token'' @ [CHR 0x22]
                      @ '',service='' @ [CHR 0x22] @ ''registry'' @ [CHR 0x22]"

definition demo_401 :: error where
  "demo_401 = AxiosError (Some \<lparr>status = 401, resp_headers = [(''www-authenticate'', demo_challenge)],
                                 data_token = None, data_json = ''{}''\<rparr>)
                ''Request failed with status code 401''"

text \<open>A registry that answers 401 with a Bearer challenge until a request carries the
  token \<open>tok1\<close>, and a token service whose answer has the token \<open>tok\<close>, or none.\<close>

definition challenge_net :: "string option \<Rightarrow> request list \<Rightarrow> request \<Rightarrow> error + response" where
  "challenge_net tok hist rq =
     (if req_url rq = ''https://auth.local/token?service=registry&scope=''
      then Inr (ok_response\<lparr>data_token := tok\<rparr>)
      else if map_of (req_headers rq) ''Authorization'' = Some (HStr ''Bearer tok1'')
      then Inr ok_response
      else Inl demo_401)"

definition demo_state :: state where
  "demo_state = \<lparr>registryUrl = ''http://reg.local'', authHeader = Some ''Basic dTpw'', token = None,
                  logged = [], sent = [], disk = []\<rparr>"

subsection \<open>Lemmas\<close>

lemma andThen_Inl [simp]: "andThen (Inl e, s) k = (Inl e, s)"
  by (simp add: andThen_def)

lemma andThen_Inr [simp]: "andThen (Inr x, s) k = k x s"
  by (simp add: andThen_def)

text \<open>What a call of \<open>request\<close> can do to the client and the network.\<close>

definition upgraded :: "state \<Rightarrow> request list \<Rightarrow> string \<Rightarrow> state" where
  "upgraded s new t = s\<lparr>sent := sent s @ new, token := Some t, authHeader := Some (''Bearer '' @ t)\<rparr>"

lemma bearer_challenge_cases:
  assumes "bearer_challenge env c err ch s = (r, s')"
  shows "(r = Inl err \<and> s' = s)
       \<or> (\<exists>realm. (\<exists>e. r = Inl e) \<and>
             s' = s\<lparr>sent := sent s @ [token_request (authHeader s) (token_url realm ch)]\<rparr>)
       \<or> (\<exists>realm t. t \<noteq> [] \<and>
             s' = upgraded s [token_request (authHeader s) (token_url realm ch), retry_request c t] t)"
proof (cases "match_quoted ''realm'' ch")
  case None
  with assms show ?thesis by (simp add: bearer_challenge_def)
next
  case (Some realm)
  let ?tr = "token_request (authHeader s) (token_url realm ch)"
  show ?thesis
  proof (cases "net env (sent s) ?tr")
    case (Inl e)
    with assms Some have "r = Inl e \<and> s' = s\<lparr>sent := sent s @ [?tr]\<rparr>"
      by (simp add: bearer_challenge_def axios_def)
    then show ?thesis by blast
  next
    case (Inr tokenResp)
    show ?thesis
    proof (cases "data_token tokenResp")
      case None
      with assms Some Inr have "r = Inl err \<and> s' = s\<lparr>sent := sent s @ [?tr]\<rparr>"
        by (auto simp: bearer_challenge_def axios_def)
      then show ?thesis by blast
    next
      case (Some t)
      show ?thesis
      proof (cases "t = []")
        case True
        with assms \<open>match_quoted ''realm'' ch = Some realm\<close> Inr Some
        have "r = Inl err \<and> s' = s\<lparr>sent := sent s @ [?tr]\<rparr>"
          by (auto simp: bearer_challenge_def axios_def)
        then show ?thesis by blast
      next
        case False
        with assms \<open>match_quoted ''realm'' ch = Some realm\<close> Inr Some
        have "s' = upgraded s [?tr, retry_request c t] t"
          by (auto simp: bearer_challenge_def axios_def upgraded_def)
        with False show ?thesis by blast
      qed
    qed
  qed
qed


definition bearer_note :: string where
  "bearer_note = ''Attempting Bearer token retrieval...''"

lemma request_cases:
  assumes "request env m e b h s = (r, s')"
  shows "(r = net env (sent s) (first_request s m e b h)
            \<and> s' = s\<lparr>sent := sent s @ [first_request s m e b h]\<rparr>)
       \<or> ((\<exists>err. r = Inl err)
            \<and> s' = log bearer_note (s\<lparr>sent := sent s @ [first_request s m e b h]\<rparr>))
       \<or> (\<exists>realm ch. (\<exists>err. r = Inl err)
            \<and> s' = (log bearer_note (s\<lparr>sent := sent s @ [first_request s m e b h]\<rparr>))
                     \<lparr>sent := sent s @ [first_request s m e b h,
                                       token_request (authHeader s) (token_url realm ch)]\<rparr>)
       \<or> (\<exists>realm ch t. t \<noteq> []
            \<and> s' = upgraded (log bearer_note (s\<lparr>sent := sent s @ [first_request s m e b h]\<rparr>))
                     [token_request (authHeader s) (token_url realm ch),
                      retry_request (first_request s m e b h) t] t)"
proof -
  let ?c = "first_request s m e b h"
  let ?s1 = "s\<lparr>sent := sent s @ [?c]\<rparr>"
  have ax: "axios env ?c s = (net env (sent s) ?c, ?s1)"
    by (simp add: axios_def)
  show ?thesis
  proof (cases "\<exists>err r ch. net env (sent s) ?c = Inl err \<and> err_response err = Some r \<and> status r = 401
                  \<and> map_of (resp_headers r) ''www-authenticate'' = Some ch
                  \<and> ch \<noteq> [] \<and> prefix ''bearer'' (map to_lower ch)")
    case False
    then have "request env m e b h s = (net env (sent s) ?c, ?s1)"
      unfolding request_def Let_def ax
      by (auto split: sum.splits option.splits)
    with assms show ?thesis by simp
  next
    case True
    then obtain err r0 ch where c: "net env (sent s) ?c = Inl err" "err_response err = Some r0"
      "status r0 = 401" "map_of (resp_headers r0) ''www-authenticate'' = Some ch"
      "ch \<noteq> []" "prefix ''bearer'' (map to_lower ch)"
      by blast
    then have "request env m e b h s = bearer_challenge env ?c err ch (log bearer_note ?s1)"
      unfolding request_def Let_def ax
      by (simp add: bearer_note_def)
    with assms have bc: "bearer_challenge env ?c err ch (log bearer_note ?s1) = (r, s')"
      by simp
    have a: "authHeader (log bearer_note ?s1) = authHeader s"
      and se: "sent (log bearer_note ?s1) = sent s @ [?c]"
      by (simp_all add: log_def)
    from bearer_challenge_cases[OF bc] consider
        (plain) "r = Inl err" "s' = log bearer_note ?s1"
      | (token) realm where "\<exists>e. r = Inl e"
          "s' = (log bearer_note ?s1)\<lparr>sent := sent (log bearer_note ?s1)
                   @ [token_request (authHeader (log bearer_note ?s1)) (token_url realm ch)]\<rparr>"
      | (retry) realm t where "t \<noteq> []"
          "s' = upgraded (log bearer_note ?s1)
                  [token_request (authHeader (log bearer_note ?s1)) (token_url realm ch),
                   retry_request ?c t] t"
      by blast
    then show ?thesis
    proof cases
      case plain
      then show ?thesis by blast
    next
      case token
      from token(2) have "s' = (log bearer_note ?s1)\<lparr>sent := sent s @ [?c,
                   token_request (authHeader s) (token_url realm ch)]\<rparr>"
        unfolding a se by simp
      with token(1) show ?thesis by blast
    next
      case retry
      from retry(2) have "s' = upgraded (log bearer_note ?s1)
                  [token_request (authHeader s) (token_url realm ch), retry_request ?c t] t"
        unfolding a by simp
      with retry(1) show ?thesis by blast
    qed
  qed
qed


lemma request_effect:
  assumes "request env m e b h s = (r, s')"
  shows "disk s' = disk s \<and> registryUrl s' = registryUrl s
       \<and> (\<exists>new. sent s' = sent s @ first_request s m e b h # new
            \<and> ((new = [] \<and> authHeader s' = authHeader s
                  \<and> (r = net env (sent s) (first_request s m e b h) \<or> (\<exists>err. r = Inl err)))
               \<or> (\<exists>u. new = [token_request (authHeader s) u] \<and> authHeader s' = authHeader s
                      \<and> (\<exists>err. r = Inl err))
               \<or> (\<exists>u t. t \<noteq> [] \<and> authHeader s' = Some (''Bearer '' @ t)
                      \<and> new = [token_request (authHeader s) u, retry_request (first_request s m e b h) t])))"
  using request_cases[OF assms]
proof (elim disjE exE conjE)
  assume "r = net env (sent s) (first_request s m e b h)"
    "s' = s\<lparr>sent := sent s @ [first_request s m e b h]\<rparr>"
  then show ?thesis by simp
next
  fix err
  assume "r = Inl err" "s' = log bearer_note (s\<lparr>sent := sent s @ [first_request s m e b h]\<rparr>)"
  then show ?thesis by (simp add: log_def)
next
  fix realm ch err
  assume "r = Inl err"
    "s' = (log bearer_note (s\<lparr>sent := sent s @ [first_request s m e b h]\<rparr>))
             \<lparr>sent := sent s @ [first_request s m e b h, token_request (authHeader s) (token_url realm ch)]\<rparr>"
  then show ?thesis by (auto simp: log_def)
next
  fix realm ch t
  assume "t \<noteq> []"
    "s' = upgraded (log bearer_note (s\<lparr>sent := sent s @ [first_request s m e b h]\<rparr>))
            [token_request (authHeader s) (token_url realm ch), retry_request (first_request s m e b h) t] t"
  then show ?thesis by (auto simp: log_def upgraded_def)
qed

lemma request_disk [simp]: "disk (snd (request env m e b h s)) = disk s"
  using request_effect[of env m e b h s] by (cases "request env m e b h s") simp

lemma request_registryUrl [simp]: "registryUrl (snd (request env m e b h s)) = registryUrl s"
  using request_effect[of env m e b h s] by (cases "request env m e b h s") simp

lemma request_sends_first:
  "\<exists>rest. sent (snd (request env m e b h s)) = sent s @ first_request s m e b h # rest"
  using request_effect[of env m e b h s] by (cases "request env m e b h s") auto

lemma carries_first:
  "is_bearer (authHeader s) \<Longrightarrow> carries_bearer (first_request s m e b h)"
  by (auto simp: is_bearer_def carries_bearer_def first_request_def with_auth_def update_conv
           split: option.splits)

lemma carries_token:
  "is_bearer a \<Longrightarrow> carries_bearer (token_request a u)"
  by (auto simp: is_bearer_def carries_bearer_def token_request_def with_auth_def split: option.splits)

lemma carries_retry: "carries_bearer (retry_request c t)"
  by (simp add: carries_bearer_def retry_request_def update_conv)


lemma request_keeps_bearer:
  assumes "is_bearer (authHeader s)"
  shows "is_bearer (authHeader (snd (request env m e b h s)))
       \<and> (\<forall>rq \<in> set (drop (length (sent s)) (sent (snd (request env m e b h s)))). carries_bearer rq)"
proof -
  obtain r s' where rs: "request env m e b h s = (r, s')"
    by (cases "request env m e b h s")
  from request_effect[OF rs] obtain new where
    new: "sent s' = sent s @ first_request s m e b h # new"
    and cases: "(new = [] \<and> authHeader s' = authHeader s)
       \<or> (\<exists>u. new = [token_request (authHeader s) u] \<and> authHeader s' = authHeader s)
       \<or> (\<exists>u t. authHeader s' = Some (''Bearer '' @ t)
              \<and> new = [token_request (authHeader s) u, retry_request (first_request s m e b h) t])"
    by blast
  from cases assms have "is_bearer (authHeader s') \<and> (\<forall>rq \<in> set new. carries_bearer rq)"
    by (auto simp: carries_token carries_retry is_bearer_def)
  with new assms show ?thesis
    by (simp add: rs carries_first)
qed

text \<open>When \<open>request\<close> resolves, the last request sent is the original one or its retry: both
  have the method, the URL and the body of the call.\<close>

lemma request_last:
  assumes "request env m e b h s = (Inr resp, s')"
  shows "sent s' \<noteq> [] \<and> req_method (last (sent s')) = m
       \<and> req_url (last (sent s')) = registryUrl s @ e \<and> req_data (last (sent s')) = b"
  using request_effect[OF assms]
  by (auto simp: first_request_def retry_request_def)

lemma request_methods:
  "\<forall>rq \<in> set (drop (length (sent s)) (sent (snd (request env m e b h s)))).
     req_method rq = m \<or> req_method rq = ''GET''"
  using request_effect[of env m e b h s]
  by (cases "request env m e b h s") (auto simp: first_request_def retry_request_def token_request_def)

section \<open>Properties of the blob pusher\<close>

definition bearer_run :: "state \<Rightarrow> state \<Rightarrow> bool" where
  "bearer_run s s' =
     (is_bearer (authHeader s')
      \<and> (\<exists>new. sent s' = sent s @ new \<and> (\<forall>rq \<in> set new. carries_bearer rq)))"

lemma bearer_run_refl: "is_bearer (authHeader s) \<Longrightarrow> bearer_run s s"
  by (simp add: bearer_run_def)

lemma bearer_run_trans: "bearer_run s s1 \<Longrightarrow> bearer_run s1 s2 \<Longrightarrow> bearer_run s s2"
  by (auto simp: bearer_run_def)

lemma bearer_run_bearer: "bearer_run s s' \<Longrightarrow> is_bearer (authHeader s')"
  by (simp add: bearer_run_def)

lemma bearer_run_log: "bearer_run s s' \<Longrightarrow> bearer_run s (log msg s')"
  by (simp add: bearer_run_def log_def)

lemma bearer_run_from_log: "bearer_run (log msg s) s' \<Longrightarrow> bearer_run s s'"
  by (simp add: bearer_run_def log_def)

lemma log_fields [simp]:
  "authHeader (log msg s) = authHeader s" "sent (log msg s) = sent s"
  "disk (log msg s) = disk s" "registryUrl (log msg s) = registryUrl s"
  "token (log msg s) = token s" "logged (log msg s) = logged s @ [msg]"
  by (simp_all add: log_def)

lemma bearer_run_request:
  "is_bearer (authHeader s) \<Longrightarrow> bearer_run s (snd (request env m e b h s))"
  using request_keeps_bearer[of s env m e b h] request_sends_first[of env m e b h s]
  by (auto simp: bearer_run_def)

lemma bearer_run_axios:
  "is_bearer (authHeader s) \<Longrightarrow> carries_bearer rq \<Longrightarrow> bearer_run s (snd (axios env rq s))"
  by (simp add: bearer_run_def axios_def)

lemma axios_fields [simp]:
  "disk (snd (axios env rq s)) = disk s" "registryUrl (snd (axios env rq s)) = registryUrl s"
  "authHeader (snd (axios env rq s)) = authHeader s" "sent (snd (axios env rq s)) = sent s @ [rq]"
  "logged (snd (axios env rq s)) = logged s" "fst (axios env rq s) = net env (sent s) rq"
  by (simp_all add: axios_def)

lemma carries_upload:
  "is_bearer (authHeader s) \<Longrightarrow> carries_bearer (upload_request s loc dig buf)"
  by (auto simp: is_bearer_def carries_bearer_def upload_request_def with_auth_def update_conv
           split: option.splits)

text \<open>The upload: what it returns and what it leaves unchanged.\<close>

definition uploading_note :: "env \<Rightarrow> string \<Rightarrow> string \<Rightarrow> string" where
  "uploading_note env dig buf =
     ''Uploading blob '' @ take 12 dig @ '' ('' @ mb_fixed2 env (length buf) @ '' MB)...''"

definition post_endpoint :: "string \<Rightarrow> string" where
  "post_endpoint repository = ''/v2/'' @ repository @ ''/blobs/uploads/''"

lemma uploadBlob_unfold:
  assumes "request env ''POST'' (post_endpoint repository) None [] (log (uploading_note env dig buf) s) = (r1, s1)"
  shows "uploadBlob env repository dig buf s =
          (case r1 of
             Inl err \<Rightarrow> (Inl err, s1)
           | Inr initResp \<Rightarrow>
               (case map_of (resp_headers initResp) ''location'' of
                  None \<Rightarrow> (Inl (TypeError ''Cannot read properties of undefined (reading startsWith)''), s1)
                | Some loc \<Rightarrow>
                    (case net env (sent s1) (upload_request s1 loc dig buf) of
                       Inl err \<Rightarrow> (Inl err, s1\<lparr>sent := sent s1 @ [upload_request s1 loc dig buf]\<rparr>)
                     | Inr putResp \<Rightarrow>
                         (Inr \<lparr>blob_digest = dig, blob_size = length buf\<rparr>,
                          log (''Upload complete: '' @ take 12 dig)
                            (s1\<lparr>sent := sent s1 @ [upload_request s1 loc dig buf]\<rparr>)))))"
  using assms
  by (simp add: uploadBlob_def uploading_note_def post_endpoint_def axios_def andThen_def
           split: sum.splits option.splits)



lemma uploadBlob_effect:
  assumes "uploadBlob env repository dig buf s = (r, s')"
  shows "disk s' = disk s \<and> registryUrl s' = registryUrl s
       \<and> (\<forall>bl. r = Inr bl \<longrightarrow> bl = \<lparr>blob_digest = dig, blob_size = length buf\<rparr>)
       \<and> (is_bearer (authHeader s) \<longrightarrow> bearer_run s s')"
proof -
  let ?s0 = "log (uploading_note env dig buf) s"
  obtain r1 s1 where p: "request env ''POST'' (post_endpoint repository) None [] ?s0 = (r1, s1)"
    by (cases "request env ''POST'' (post_endpoint repository) None [] ?s0")
  then have s1: "s1 = snd (request env ''POST'' (post_endpoint repository) None [] ?s0)"
    by simp
  have d1: "disk s1 = disk s" and u1: "registryUrl s1 = registryUrl s"
    unfolding s1 by simp_all
  have b1: "bearer_run s s1" if "is_bearer (authHeader s)"
    unfolding s1
    by (rule bearer_run_from_log, rule bearer_run_request) (simp add: that)
  have b2: "bearer_run s (s1\<lparr>sent := sent s1 @ [upload_request s1 loc dig buf]\<rparr>)"
    if "is_bearer (authHeader s)" for loc
    using b1[OF that] carries_upload[of s1 loc dig buf]
    by (auto simp: bearer_run_def)
  note eq = uploadBlob_unfold[OF p]
  from assms[unfolded eq]
  have res: "\<forall>bl. r = Inr bl \<longrightarrow> bl = \<lparr>blob_digest = dig, blob_size = length buf\<rparr>"
    by (auto split: sum.splits option.splits)
  from assms[unfolded eq]
  consider (a) "s' = s1"
    | (b) loc where "s' = s1\<lparr>sent := sent s1 @ [upload_request s1 loc dig buf]\<rparr>"
    | (c) loc where "s' = log (''Upload complete: '' @ take 12 dig)
                            (s1\<lparr>sent := sent s1 @ [upload_request s1 loc dig buf]\<rparr>)"
    by (auto split: sum.splits option.splits)
  then have "disk s' = disk s \<and> registryUrl s' = registryUrl s
       \<and> (is_bearer (authHeader s) \<longrightarrow> bearer_run s s')"
  proof cases
    case a
    with d1 u1 b1 show ?thesis by simp
  next
    case b
    with d1 u1 b2 show ?thesis by simp
  next
    case c
    with d1 u1 b2[THEN bearer_run_log] show ?thesis by simp
  qed
  with res show ?thesis by blast
qed


text \<open>The blob of a file content: its digest and its length in bytes.\<close>

definition blob_of :: "env \<Rightarrow> string \<Rightarrow> blob" where
  "blob_of env buf = \<lparr>blob_digest = ''sha256:'' @ sha256hex env buf, blob_size = length buf\<rparr>"

definition head_endpoint :: "string \<Rightarrow> string \<Rightarrow> string" where
  "head_endpoint repository dig = ''/v2/'' @ repository @ ''/blobs/'' @ dig"

definition checking_note :: "string \<Rightarrow> string" where
  "checking_note dig = ''Checking blob '' @ take 12 dig @ ''...''"

definition warn_check :: "error \<Rightarrow> state \<Rightarrow> state" where
  "warn_check err s =
     (case err_response err of
        None \<Rightarrow> s
      | Some r \<Rightarrow> if status r \<noteq> 404 then log (''Warning checking blob: '' @ err_message err) s else s)"

lemma pushBlob_unfold:
  assumes "readFile (disk s) filePath = Inr buf"
    and "request env ''HEAD'' (head_endpoint repository (blob_digest (blob_of env buf))) None []
           (log (checking_note (blob_digest (blob_of env buf))) s) = (r1, s1)"
  shows "pushBlob env repository filePath s =
          (case r1 of
             Inr resp \<Rightarrow>
               (Inr (blob_of env buf),
                log (''Blob '' @ take 12 (blob_digest (blob_of env buf)) @ '' already exists.'') s1)
           | Inl err \<Rightarrow>
               uploadBlob env repository (blob_digest (blob_of env buf)) buf (warn_check err s1))"
  using assms
  by (simp add: pushBlob_def blob_of_def head_endpoint_def checking_note_def warn_check_def Let_def
           split: sum.splits option.splits)

lemma warn_check_fields [simp]:
  "disk (warn_check err s) = disk s" "registryUrl (warn_check err s) = registryUrl s"
  "authHeader (warn_check err s) = authHeader s" "sent (warn_check err s) = sent s"
  by (simp_all add: warn_check_def split: option.splits)

lemma bearer_run_warn: "bearer_run s s' \<Longrightarrow> bearer_run s (warn_check err s')"
  by (simp add: bearer_run_def)

lemma pushBlob_effect:
  assumes "pushBlob env repository filePath s = (r, s')"
  shows "disk s' = disk s \<and> registryUrl s' = registryUrl s
       \<and> (\<forall>bl. r = Inr bl \<longrightarrow> (\<exists>buf. readFile (disk s) filePath = Inr buf \<and> bl = blob_of env buf))
       \<and> (is_bearer (authHeader s) \<longrightarrow> bearer_run s s')"
proof (cases "readFile (disk s) filePath")
  case (Inl err)
  with assms have "r = Inl err" "s' = s"
    by (simp_all add: pushBlob_def)
  then show ?thesis by (simp add: bearer_run_refl)
next
  case (Inr buf)
  let ?dig = "blob_digest (blob_of env buf)"
  let ?s0 = "log (checking_note ?dig) s"
  obtain r1 s1 where p: "request env ''HEAD'' (head_endpoint repository ?dig) None [] ?s0 = (r1, s1)"
    by (cases "request env ''HEAD'' (head_endpoint repository ?dig) None [] ?s0")
  then have s1: "s1 = snd (request env ''HEAD'' (head_endpoint repository ?dig) None [] ?s0)"
    by simp
  have d1: "disk s1 = disk s" and u1: "registryUrl s1 = registryUrl s"
    unfolding s1 by simp_all
  have b1: "bearer_run s s1" if "is_bearer (authHeader s)"
    unfolding s1
    by (rule bearer_run_from_log, rule bearer_run_request) (simp add: that)
  note eq = pushBlob_unfold[OF Inr p]
  show ?thesis
  proof (cases r1)
    case (Inr resp)
    with assms eq have "r = Inr (blob_of env buf)"
      "s' = log (''Blob '' @ take 12 ?dig @ '' already exists.'') s1"
      by simp_all
    with d1 u1 b1 \<open>readFile (disk s) filePath = Inr buf\<close> show ?thesis
      by (simp add: bearer_run_log)
  next
    case (Inl err)
    with assms eq have up: "uploadBlob env repository ?dig buf (warn_check err s1) = (r, s')"
      by simp
    from uploadBlob_effect[OF up]
    have e: "disk s' = disk s1" "registryUrl s' = registryUrl s1"
      "\<forall>bl. r = Inr bl \<longrightarrow> bl = \<lparr>blob_digest = ?dig, blob_size = length buf\<rparr>"
      "is_bearer (authHeader s1) \<longrightarrow> bearer_run (warn_check err s1) s'"
      by simp_all
    have "bearer_run s s'" if "is_bearer (authHeader s)"
    proof -
      from b1[OF that] have "bearer_run s (warn_check err s1)"
        by (rule bearer_run_warn)
      moreover from b1[OF that] have "is_bearer (authHeader s1)"
        by (rule bearer_run_bearer)
      with e(4) have "bearer_run (warn_check err s1) s'" by simp
      ultimately show ?thesis by (rule bearer_run_trans)
    qed
    moreover have "\<lparr>blob_digest = ?dig, blob_size = length buf\<rparr> = blob_of env buf"
      by (simp add: blob_of_def)
    ultimately show ?thesis
      using e(1,2,3) d1 u1 \<open>readFile (disk s) filePath = Inr buf\<close> by simp
  qed
qed

lemma pushLayers_effect:
  assumes "pushLayers env repository tempDir files acc s = (r, s')"
  shows "disk s' = disk s \<and> registryUrl s' = registryUrl s
       \<and> (\<forall>bls. r = Inr bls \<longrightarrow>
             (\<exists>bufs. map (\<lambda>f. readFile (disk s) (path_join tempDir f)) files = map Inr bufs
                    \<and> bls = acc @ map (blob_of env) bufs))
       \<and> (is_bearer (authHeader s) \<longrightarrow> bearer_run s s')"
  using assms
proof (induction files arbitrary: acc s)
  case Nil
  then show ?case by (auto simp: bearer_run_refl)
next
  case (Cons f files)
  obtain r1 s1 where p: "pushBlob env repository (path_join tempDir f) s = (r1, s1)"
    by (cases "pushBlob env repository (path_join tempDir f) s")
  note e1 = pushBlob_effect[OF p]
  show ?case
  proof (cases r1)
    case (Inl err)
    with Cons.prems p have "r = Inl err" "s' = s1" by simp_all
    with e1 show ?thesis by simp
  next
    case (Inr bl)
    with Cons.prems p have rest: "pushLayers env repository tempDir files (acc @ [bl]) s1 = (r, s')"
      by simp
    note e2 = Cons.IH[OF rest]
    from e1 Inr obtain buf where buf: "readFile (disk s) (path_join tempDir f) = Inr buf" "bl = blob_of env buf"
      by auto
    have d: "disk s' = disk s" "registryUrl s' = registryUrl s"
      using e1 e2 by simp_all
    have b: "bearer_run s s'" if "is_bearer (authHeader s)"
    proof -
      from e1 that have "bearer_run s s1" by simp
      moreover then have "is_bearer (authHeader s1)" by (rule bearer_run_bearer)
      with e2 have "bearer_run s1 s'" by simp
      ultimately show ?thesis by (rule bearer_run_trans)
    qed
    have res: "\<exists>bufs. map (\<lambda>f. readFile (disk s) (path_join tempDir f)) (f # files) = map Inr bufs
                    \<and> bls = acc @ map (blob_of env) bufs" if "r = Inr bls" for bls
    proof -
      from e2 that obtain bufs where
        "map (\<lambda>f. readFile (disk s1) (path_join tempDir f)) files = map Inr bufs"
        "bls = (acc @ [bl]) @ map (blob_of env) bufs"
        by blast
      with buf e1 have "map (\<lambda>f. readFile (disk s) (path_join tempDir f)) (f # files) = map Inr (buf # bufs)
                    \<and> bls = acc @ map (blob_of env) (buf # bufs)"
        by simp
      then show ?thesis by blast
    qed
    from d b res show ?thesis by blast
  qed
qed

section \<open>Properties of \<open>pushTarball\<close> and of the handler\<close>

definition manifest_endpoint :: "string \<Rightarrow> string \<Rightarrow> string" where
  "manifest_endpoint repository tag = ''/v2/'' @ repository @ ''/manifests/'' @ tag"

lemma pushManifest_effect:
  assumes "pushManifest env repository tag payload s = (r, s')"
  shows "disk s' = disk s \<and> registryUrl s' = registryUrl s
       \<and> (\<forall>u. r = Inr u \<longrightarrow>
             sent s' \<noteq> [] \<and> req_method (last (sent s')) = ''PUT''
             \<and> req_url (last (sent s')) = registryUrl s @ manifest_endpoint repository tag
             \<and> req_data (last (sent s')) = Some (stringify_manifest env payload))
       \<and> (is_bearer (authHeader s) \<longrightarrow> bearer_run s s')"
proof -
  let ?data = "stringify_manifest env payload"
  let ?s1 = "log (''Pushing manifest to '' @ repository @ '':'' @ tag @ ''...'') s"
  let ?s2 = "log (''Manifest payload: '' @ ?data) ?s1"
  let ?rq = "request env ''PUT'' (manifest_endpoint repository tag) (Some ?data)
               (manifest_headers (authHeader ?s1) ?data) ?s2"
  obtain r1 s3 where p: "?rq = (r1, s3)"
    by (cases ?rq)
  then have s3: "s3 = snd ?rq" by simp
  have d: "disk s3 = disk s" and u: "registryUrl s3 = registryUrl s"
    unfolding s3 by simp_all
  have b: "bearer_run s s3" if "is_bearer (authHeader s)"
    unfolding s3
    by (rule bearer_run_from_log, rule bearer_run_from_log, rule bearer_run_request) (simp add: that)
  have eq: "pushManifest env repository tag payload s =
          (case r1 of
             Inr resp \<Rightarrow>
               (Inr (), log (''Successfully pushed manifest. Digest: sha256:'' @ sha256hex env ?data) s3)
           | Inl err \<Rightarrow>
               (Inl err,
                (case err_response err of
                   None \<Rightarrow> log (''Error pushing manifest: '' @ err_message err) s3
                 | Some r \<Rightarrow>
                     log (''Server responded: '' @ data_json r)
                       (log (''Error pushing manifest: '' @ err_message err) s3))))"
    using p by (simp add: pushManifest_def Let_def manifest_endpoint_def split: sum.splits)
  show ?thesis
  proof (cases r1)
    case (Inr resp)
    with assms eq have rs: "r = Inr ()"
      "s' = log (''Successfully pushed manifest. Digest: sha256:'' @ sha256hex env ?data) s3"
      by simp_all
    from p Inr have "request env ''PUT'' (manifest_endpoint repository tag) (Some ?data)
               (manifest_headers (authHeader ?s1) ?data) ?s2 = (Inr resp, s3)"
      by simp
    from request_last[OF this]
    have "sent s3 \<noteq> [] \<and> req_method (last (sent s3)) = ''PUT''
        \<and> req_url (last (sent s3)) = registryUrl s @ manifest_endpoint repository tag
        \<and> req_data (last (sent s3)) = Some ?data"
      by simp
    with rs d u b show ?thesis
      by (simp add: bearer_run_log)
  next
    case (Inl err)
    with assms eq have rs: "r = Inl err"
      "s' = (case err_response err of
                   None \<Rightarrow> log (''Error pushing manifest: '' @ err_message err) s3
                 | Some r \<Rightarrow>
                     log (''Server responded: '' @ data_json r)
                       (log (''Error pushing manifest: '' @ err_message err) s3))"
      by simp_all
    show ?thesis
    proof (cases "err_response err")
      case None
      with rs d u b show ?thesis by (simp add: bearer_run_log)
    next
      case (Some r0)
      with rs d u b show ?thesis by (simp add: bearer_run_log)
    qed
  qed
qed

lemma pushBlobsAndManifest_effect:
  assumes "pushBlobsAndManifest env repository tag tempDir configFilename layerFilenames s = (r, s')"
  shows "disk s' = disk s \<and> registryUrl s' = registryUrl s
       \<and> (\<forall>u. r = Inr u \<longrightarrow>
             (\<exists>cbuf lbufs.
                readFile (disk s) (path_join tempDir configFilename) = Inr cbuf
                \<and> map (\<lambda>f. readFile (disk s) (path_join tempDir f)) layerFilenames = map Inr lbufs
                \<and> sent s' \<noteq> [] \<and> req_method (last (sent s')) = ''PUT''
                \<and> req_url (last (sent s')) = registryUrl s @ manifest_endpoint repository tag
                \<and> req_data (last (sent s'))
                    = Some (stringify_manifest env
                              (manifestPayload (blob_of env cbuf) (map (blob_of env) lbufs)))))
       \<and> (is_bearer (authHeader s) \<longrightarrow> bearer_run s s')"
proof -
  obtain r1 s1 where p1: "pushBlob env repository (path_join tempDir configFilename) s = (r1, s1)"
    by (cases "pushBlob env repository (path_join tempDir configFilename) s")
  note e1 = pushBlob_effect[OF p1]
  show ?thesis
  proof (cases r1)
    case (Inl err)
    with assms p1 have "r = Inl err" "s' = s1"
      by (simp_all add: pushBlobsAndManifest_def)
    with e1 show ?thesis by simp
  next
    case (Inr configResult)
    with e1 obtain cbuf where cbuf: "readFile (disk s) (path_join tempDir configFilename) = Inr cbuf"
      "configResult = blob_of env cbuf"
      by auto
    obtain r2 s2 where p2: "pushLayers env repository tempDir layerFilenames [] s1 = (r2, s2)"
      by (cases "pushLayers env repository tempDir layerFilenames [] s1")
    note e2 = pushLayers_effect[OF p2]
    have b12: "bearer_run s s2" if "is_bearer (authHeader s)"
    proof -
      from e1 that have "bearer_run s s1" by simp
      moreover then have "is_bearer (authHeader s1)" by (rule bearer_run_bearer)
      with e2 have "bearer_run s1 s2" by simp
      ultimately show ?thesis by (rule bearer_run_trans)
    qed
    show ?thesis
    proof (cases r2)
      case (Inl err)
      with assms p1 p2 \<open>r1 = Inr configResult\<close> have "r = Inl err" "s' = s2"
        by (simp_all add: pushBlobsAndManifest_def)
      with e1 e2 b12 show ?thesis by simp
    next
      case (Inr layerResults)
      with e2 obtain lbufs where lbufs:
        "map (\<lambda>f. readFile (disk s1) (path_join tempDir f)) layerFilenames = map Inr lbufs"
        "layerResults = map (blob_of env) lbufs"
        by auto
      from assms p1 p2 \<open>r1 = Inr configResult\<close> Inr
      have p3: "pushManifest env repository tag (manifestPayload configResult layerResults)
                  (log ''Constructing manifest...'' s2) = (r, s')"
        by (simp add: pushBlobsAndManifest_def)
      note e3 = pushManifest_effect[OF p3]
      have d: "disk s' = disk s" "registryUrl s' = registryUrl s"
        using e1 e2 e3 by simp_all
      have b: "bearer_run s s'" if "is_bearer (authHeader s)"
      proof -
        from b12[OF that] have "bearer_run s (log ''Constructing manifest...'' s2)"
          by (rule bearer_run_log)
        moreover from b12[OF that] have "is_bearer (authHeader s2)" by (rule bearer_run_bearer)
        with e3 have "bearer_run (log ''Constructing manifest...'' s2) s'" by simp
        ultimately show ?thesis by (rule bearer_run_trans)
      qed
      have res: "\<exists>cbuf lbufs.
                readFile (disk s) (path_join tempDir configFilename) = Inr cbuf
                \<and> map (\<lambda>f. readFile (disk s) (path_join tempDir f)) layerFilenames = map Inr lbufs
                \<and> sent s' \<noteq> [] \<and> req_method (last (sent s')) = ''PUT''
                \<and> req_url (last (sent s')) = registryUrl s @ manifest_endpoint repository tag
                \<and> req_data (last (sent s'))
                    = Some (stringify_manifest env
                              (manifestPayload (blob_of env cbuf) (map (blob_of env) lbufs)))"
        if "r = Inr u" for u
      proof -
        from e3 that have "sent s' \<noteq> [] \<and> req_method (last (sent s')) = ''PUT''
             \<and> req_url (last (sent s')) = registryUrl s2 @ manifest_endpoint repository tag
             \<and> req_data (last (sent s')) = Some (stringify_manifest env (manifestPayload configResult layerResults))"
          by simp
        with cbuf lbufs e1 e2 show ?thesis by auto
      qed
      from d b res show ?thesis by blast
    qed
  qed
qed

lemma index_file_names_effect:
  assumes "index_file_names env imageMeta s = (r, s')"
  shows "disk s' = disk s \<and> registryUrl s' = registryUrl s \<and> authHeader s' = authHeader s
       \<and> sent s' = sent s
       \<and> (\<forall>c ls. r = Inr (c, ls) \<longrightarrow> im_Config imageMeta = Some c \<and> im_Layers imageMeta = Some ls)"
  using assms
  by (auto simp: index_file_names_def Let_def split: option.splits)

text \<open>The stages of \<open>pushTarball\<close>: either it fails before any blob is pushed, with no
  request sent, or the archive was extracted and its index read, and the blobs and the
  manifest were pushed from the extracted files.\<close>

lemma pushTarball_stages:
  assumes "pushTarball env tarPath repository tag s = (r, s')"
  shows "((\<exists>err. r = Inl err) \<and> authHeader s' = authHeader s \<and> sent s' = sent s
            \<and> registryUrl s' = registryUrl s)
       \<or> (\<exists>fs1 fs2 imageMeta configFilename layerFilenames s2 r3 s3.
             ensureDir (disk s) (tempDir_of env) = Inr fs1
             \<and> extract_archive env tarPath (tempDir_of env) fs1 = (Inr (), fs2)
             \<and> read_index env (tempDir_of env) fs2 = Inr imageMeta
             \<and> im_Config imageMeta = Some configFilename
             \<and> im_Layers imageMeta = Some layerFilenames
             \<and> disk s2 = fs2 \<and> registryUrl s2 = registryUrl s
             \<and> authHeader s2 = authHeader s \<and> sent s2 = sent s
             \<and> pushBlobsAndManifest env repository tag (tempDir_of env)
                  configFilename layerFilenames s2 = (r3, s3)
             \<and> ((\<exists>err. r3 = Inl err \<and> r = Inl err \<and> s' = s3)
                \<or> (r3 = Inr () \<and> r = Inr ()
                     \<and> s' = s3\<lparr>disk := remove (disk s3) (tempDir_of env)\<rparr>)))"
proof -
  let ?T = "tempDir_of env"
  let ?s0 = "log (''Reading tarball from '' @ tarPath @ ''...'') s"
  show ?thesis
  proof (cases "ensureDir (disk s) ?T")
    case (Inl err)
    with assms have "r = Inl err" "s' = ?s0"
      by (simp_all add: pushTarball_def Let_def)
    then show ?thesis by simp
  next
    case (Inr fs1)
    let ?s1 = "log (''Extracting to temporary directory: /'' @ join_with ''/'' ?T) (?s0\<lparr>disk := fs1\<rparr>)"
    have d1: "disk ?s1 = fs1" by simp
    obtain r2 fs2 where ex: "extract_archive env tarPath ?T fs1 = (r2, fs2)"
      by (cases "extract_archive env tarPath ?T fs1")
    show ?thesis
    proof (cases r2)
      case (Inl err)
      with assms Inr ex have "r = Inl err" "s' = ?s1\<lparr>disk := fs2\<rparr>"
        by (simp_all add: pushTarball_def Let_def)
      then show ?thesis by simp
    next
      case r2: (Inr u2)
      show ?thesis
      proof (cases "read_index env ?T fs2")
        case (Inl err)
        with assms Inr ex r2 have "r = Inl err" "s' = ?s1\<lparr>disk := fs2\<rparr>"
          by (simp_all add: pushTarball_def Let_def)
        then show ?thesis by simp
      next
        case ri: (Inr imageMeta)
        obtain r4 s2 where nm: "index_file_names env imageMeta (?s1\<lparr>disk := fs2\<rparr>) = (r4, s2)"
          by (cases "index_file_names env imageMeta (?s1\<lparr>disk := fs2\<rparr>)")
        note en = index_file_names_effect[OF nm]
        show ?thesis
        proof (cases r4)
          case (Inl err)
          with assms Inr ex r2 ri nm have "r = Inl err" "s' = s2"
            by (simp_all add: pushTarball_def Let_def)
          with en show ?thesis by simp
        next
          case r4: (Inr names)
          obtain configFilename layerFilenames where names: "names = (configFilename, layerFilenames)"
            by (cases names)
          obtain r3 s3 where pb: "pushBlobsAndManifest env repository tag ?T
                  configFilename layerFilenames s2 = (r3, s3)"
            by (cases "pushBlobsAndManifest env repository tag ?T configFilename layerFilenames s2")
          from assms Inr ex r2 ri nm r4 names pb
          have fin: "(case r3 of Inl err \<Rightarrow> (Inl err, s3)
                      | Inr u \<Rightarrow> (Inr (), s3\<lparr>disk := remove (disk s3) ?T\<rparr>)) = (r, s')"
            by (simp add: pushTarball_def Let_def andThen_def split: sum.splits)
          have tail: "(\<exists>err. r3 = Inl err \<and> r = Inl err \<and> s' = s3)
                \<or> (r3 = Inr () \<and> r = Inr () \<and> s' = s3\<lparr>disk := remove (disk s3) ?T\<rparr>)"
            using fin by (cases r3) auto
          from en r4 names have meta: "im_Config imageMeta = Some configFilename"
            "im_Layers imageMeta = Some layerFilenames"
            by simp_all
          from en have st: "disk s2 = fs2" "registryUrl s2 = registryUrl s"
            "authHeader s2 = authHeader s" "sent s2 = sent s"
            by simp_all
          have u2: "r2 = Inr ()" using r2 by simp
          from Inr ex[unfolded u2] ri meta st pb tail show ?thesis
            by blast
        qed
      qed
    qed
  qed
qed

lemma request_logged:
  "\<exists>l. logged (snd (request env m e b h s)) = logged s @ l"
proof -
  obtain r s' where rs: "request env m e b h s = (r, s')"
    by (cases "request env m e b h s")
  from request_cases[OF rs] show ?thesis
    unfolding rs snd_conv
    by (elim disjE exE conjE) (simp_all add: log_def upgraded_def)
qed

lemma uploadBlob_logged:
  "\<exists>l. logged (snd (uploadBlob env repository dig buf s)) = logged s @ l"
proof -
  let ?s0 = "log (uploading_note env dig buf) s"
  obtain r1 s1 where p: "request env ''POST'' (post_endpoint repository) None [] ?s0 = (r1, s1)"
    by (cases "request env ''POST'' (post_endpoint repository) None [] ?s0")
  from request_logged[of env "''POST''" "post_endpoint repository" None "[]" ?s0] p
  obtain l where l: "logged s1 = logged s @ uploading_note env dig buf # l"
    by auto
  show ?thesis
    unfolding uploadBlob_unfold[OF p] using l
    by (auto split: sum.splits option.splits)
qed

lemma uploadBlob_sends_post:
  "\<exists>rest. sent (snd (uploadBlob env repository dig buf s))
     = sent s @ first_request s ''POST'' (post_endpoint repository) None [] # rest"
proof -
  let ?s0 = "log (uploading_note env dig buf) s"
  obtain r1 s1 where p: "request env ''POST'' (post_endpoint repository) None [] ?s0 = (r1, s1)"
    by (cases "request env ''POST'' (post_endpoint repository) None [] ?s0")
  have f: "first_request ?s0 ''POST'' (post_endpoint repository) None []
         = first_request s ''POST'' (post_endpoint repository) None []"
    by (simp add: first_request_def)
  from request_sends_first[of env "''POST''" "post_endpoint repository" None "[]" ?s0] p
  obtain rest where l: "sent s1 = sent s @ first_request s ''POST'' (post_endpoint repository) None [] # rest"
    unfolding f by auto
  show ?thesis
    unfolding uploadBlob_unfold[OF p] using l
    by (auto split: sum.splits option.splits)
qed

lemma uploadBlob_then_put:
  assumes "request env ''POST'' (post_endpoint repository) None [] (log (uploading_note env dig buf) s)
             = (Inr initResp, s2)"
    and "map_of (resp_headers initResp) ''location'' = Some loc"
  shows "sent (snd (uploadBlob env repository dig buf s)) = sent s2 @ [upload_request s2 loc dig buf]"
  unfolding uploadBlob_unfold[OF assms(1)] using assms(2)
  by (simp split: sum.splits)

text \<open>Nothing at or below a removed path is left.\<close>

definition gone :: "fsys \<Rightarrow> path \<Rightarrow> bool" where
  "gone fs p = list_all (\<lambda>(q, n). \<not> prefix p q) fs"

lemma gone_remove: "gone (remove fs p) p"
  by (auto simp: gone_def remove_def list_all_iff)

lemma pushTarball_removes_tempDir:
  assumes "pushTarball env tarPath repository tag s = (Inr u, s')"
  shows "gone (disk s') (tempDir_of env)"
proof -
  from pushTarball_stages[OF assms]
  obtain s3 where "s' = s3\<lparr>disk := remove (disk s3) (tempDir_of env)\<rparr>"
    by auto
  then show ?thesis by (simp add: gone_remove)
qed

lemma bearer_run_eq:
  "authHeader t' = authHeader s' \<Longrightarrow> sent t' = sent s' \<Longrightarrow> sent t = sent s \<Longrightarrow>
   bearer_run s s' \<Longrightarrow> bearer_run t t'"
  by (simp add: bearer_run_def)




definition demo_entries :: "tar_entry list" where
  "demo_entries =
     [\<lparr>header_name = ''manifest.json'', header_type = ''file'', contents = ''[index]''\<rparr>,
      \<lparr>header_name = ''abc.json'', header_type = ''file'', contents = ''cfg''\<rparr>,
      \<lparr>header_name = ''l1'', header_type = ''directory'', contents = []\<rparr>,
      \<lparr>header_name = ''l1/layer.tar'', header_type = ''file'', contents = ''layer-one''\<rparr>,
      \<lparr>header_name = ''l2/layer.tar'', header_type = ''file'', contents = ''layer-two!''\<rparr>]"

definition demo_index :: "image_meta list" where
  "demo_index = [\<lparr>im_Config = Some ''abc.json'', im_Layers = Some [''l1/layer.tar'', ''l2/layer.tar'']\<rparr>]"

definition push_env :: env where
  "push_env = demo_env\<lparr>untar := (\<lambda>bytes. (demo_entries, None)),
                        parse_index := (\<lambda>text. Inr demo_index)\<rparr>"

definition push_state :: state where
  "push_state = demo_state\<lparr>disk := [([''data''], FDir), ([''data'', ''svc.tar''], FFile ''tar bytes'')]\<rparr>"

lemma isDirectory_update:
  "isDirectory fs q \<Longrightarrow> isDirectory (AList.update p FDir fs) q"
  by (auto simp: isDirectory_def update_conv')

lemma mkdirs_dirs:
  assumes "mkdirs fs base xs = Inr fs'" and "isDirectory fs base"
  shows "isDirectory fs' (base @ xs) \<and> (\<forall>q. isDirectory fs q \<longrightarrow> isDirectory fs' q)"
  using assms
proof (induction xs arbitrary: fs base)
  case Nil
  then show ?case by simp
next
  case (Cons x xs)
  show ?case
  proof (cases "map_of fs (base @ [x])")
    case None
    with Cons.prems have m: "mkdirs (AList.update (base @ [x]) FDir fs) (base @ [x]) xs = Inr fs'"
      by simp
    have "isDirectory (AList.update (base @ [x]) FDir fs) (base @ [x])"
      by (simp add: isDirectory_def update_conv')
    from Cons.IH[OF m this] show ?thesis
      by (auto intro: isDirectory_update)
  next
    case (Some n)
    show ?thesis
    proof (cases n)
      case FDir
      with Some Cons.prems have m: "mkdirs fs (base @ [x]) xs = Inr fs'" by simp
      from Some FDir have "isDirectory fs (base @ [x])" by (simp add: isDirectory_def)
      from Cons.IH[OF m this] show ?thesis by simp
    next
      case (FFile c)
      with Some Cons.prems show ?thesis by simp
    qed
  qed
qed

lemma ensureDir_dirs:
  assumes "ensureDir fs p = Inr fs'"
  shows "isDirectory fs' p \<and> (\<forall>q. isDirectory fs q \<longrightarrow> isDirectory fs' q)"
  using mkdirs_dirs[of fs "[]" p fs'] assms
  by (simp add: ensureDir_def isDirectory_def)

lemma writeFile_dirs:
  assumes "writeFile fs p c = Inr fs'" and "isDirectory fs q"
  shows "isDirectory fs' q"
  using assms
  by (auto simp: writeFile_def isDirectory_def update_conv' split: if_splits)

lemma checkout_dirs:
  assumes "isDirectory fs q"
  shows "isDirectory (snd (checkout dir files fs)) q"
  using assms
proof (induction files arbitrary: fs)
  case Nil
  then show ?case by simp
next
  case (Cons f files)
  obtain rel content where f: "f = (rel, content)" by (cases f)
  show ?case
  proof (cases "ensureDir fs (dirname (dir @ rel))")
    case (Inl err)
    with Cons.prems f show ?thesis by simp
  next
    case (Inr fs1)
    from ensureDir_dirs[OF Inr] Cons.prems have d1: "isDirectory fs1 q" by simp
    show ?thesis
    proof (cases "writeFile fs1 (dir @ rel) content")
      case (Inl err)
      with \<open>ensureDir fs (dirname (dir @ rel)) = Inr fs1\<close> d1 f show ?thesis by simp
    next
      case w: (Inr fs2)
      from writeFile_dirs[OF w d1] have "isDirectory fs2 q" .
      from Cons.IH[OF this] Inr w f show ?thesis by simp
    qed
  qed
qed

lemma clone_repo_dir:
  assumes "clone_repo env globalConfig repoDir s = (Inr u, s')"
  shows "isDirectory (disk s') repoDir"
proof -
  let ?fs0 = "if pathExists (disk s) repoDir then remove (disk s) repoDir else disk s"
  show ?thesis
  proof (cases "ensureDir ?fs0 repoDir")
    case (Inl err)
    with assms show ?thesis by (simp add: clone_repo_def)
  next
    case (Inr fs1)
    from ensureDir_dirs[OF Inr] have d1: "isDirectory fs1 repoDir" by simp
    let ?cloned = "git_clone env (git_repo_url globalConfig) (username globalConfig) (password globalConfig)"
    from assms Inr have "disk s' = snd (checkout repoDir (fst ?cloned) fs1)"
      by (auto simp: clone_repo_def Let_def split: prod.splits sum.splits option.splits)
    with checkout_dirs[OF d1] show ?thesis by simp
  qed
qed

lemma hinted_target_disk: "disk (snd (hinted_target repoDir manifestPath repoName s)) = disk s"
  by (simp add: hinted_target_def lift_disk_def split: option.splits)

lemma locate_manifest_disk:
  "disk (snd (locate_manifest repoDir manifestPath repoName serviceName s)) = disk s"
proof -
  obtain r1 s1 where h: "hinted_target repoDir manifestPath repoName s = (r1, s1)"
    by (cases "hinted_target repoDir manifestPath repoName s")
  with hinted_target_disk[of repoDir manifestPath repoName s] have d: "disk s1 = disk s" by simp
  show ?thesis
    unfolding locate_manifest_def h using d
    by (cases r1) (auto simp: lift_disk_def andThen_def split: sum.splits)
qed

lemma updateYaml_dirs:
  assumes "isDirectory (disk s) q"
  shows "isDirectory (disk (snd (updateYaml filePath identifier newTag s))) q"
  using assms
  by (auto simp: updateYaml_def split: sum.splits dest: writeFile_dirs)

lemma git_step_disk [simp]: "disk (snd (git_step r s)) = disk s"
  by (simp add: git_step_def split: option.splits)

lemma patch_and_push_dirs:
  assumes "isDirectory (disk s) q"
  shows "isDirectory (disk (snd (patch_and_push env serviceName tag globalConfig repoDir repoName target s))) q"
proof -
  let ?s0 = "log (''Modifying file: '' @ target) s"
  obtain r1 s1 where u: "updateYaml (path_join repoDir target) (identifier_of repoName) tag ?s0 = (r1, s1)"
    by (cases "updateYaml (path_join repoDir target) (identifier_of repoName) tag ?s0")
  from updateYaml_dirs[of ?s0 q "path_join repoDir target" "identifier_of repoName" tag] assms u
  have d1: "isDirectory (disk s1) q" by simp
  show ?thesis
    unfolding patch_and_push_def u using d1
    by (cases r1) (auto simp: andThen_def git_step_def split: option.splits)
qed

lemma deploy_steps_dir:
  assumes "deploy_steps env serviceName tag regUrl globalConfig finalTarPath manifestPath s = (Inr u, s')"
  shows "isDirectory (disk s') (repoDir_of env serviceName)"
proof -
  let ?R = "repoDir_of env serviceName"
  let ?repoName = "snd (split_coordinate regUrl serviceName)"
  let ?regHost = "fst (split_coordinate regUrl serviceName)"
  let ?s2 = "log ''--- Pushing Image to Registry (Docker-less) ---''
               (login env (reg_username globalConfig) (reg_password globalConfig) ?regHost
                  (log (''Repository: '' @ ?repoName)
                     (log (''Registry: '' @ ?regHost)
                        (log ''--- Authenticating with Registry ---''
                           (s\<lparr>registryUrl := [], authHeader := None, token := None\<rparr>)))))"
  obtain r3 s3 where p: "pushTarball env finalTarPath ?repoName tag ?s2 = (r3, s3)"
    by (cases "pushTarball env finalTarPath ?repoName tag ?s2")
  obtain r4 s4 where c: "clone_repo env globalConfig ?R s3 = (r4, s4)"
    by (cases "clone_repo env globalConfig ?R s3")
  obtain r5 s5 where l: "locate_manifest ?R manifestPath ?repoName serviceName s4 = (r5, s5)"
    by (cases "locate_manifest ?R manifestPath ?repoName serviceName s4")
  from assms p c l have ok: "\<exists>u3 u4 t. r3 = Inr u3 \<and> r4 = Inr u4 \<and> r5 = Inr t
      \<and> s' = snd (patch_and_push env serviceName tag globalConfig ?R ?repoName t s5)"
    by (cases r3; cases r4; cases r5) (auto simp: deploy_steps_def Let_def)
  then obtain u4 t where r4: "r4 = Inr u4"
    and s': "s' = snd (patch_and_push env serviceName tag globalConfig ?R ?repoName t s5)"
    by blast
  from clone_repo_dir[OF c[unfolded r4]] have "isDirectory (disk s4) ?R" .
  with locate_manifest_disk[of ?R manifestPath ?repoName serviceName s4] l
  have "isDirectory (disk s5) ?R" by simp
  from patch_and_push_dirs[OF this] s' show ?thesis by simp
qed

lemma run_deploy_success:
  assumes "run_deploy env serviceName tag regUrl globalConfig tarPath manifestPath s
             = (Some (DeployComplete n True t), s')"
  shows "isDirectory (disk s') (repoDir_of env serviceName)"
proof -
  let ?s0 = "log (''--- Initiating deployment: '' @ serviceName @ '':'' @ tag @ '' ---'') s"
  let ?ftp = "if truthy tarPath then or_empty tarPath
              else path_str (path_join (path_join (cwd env) ''images'') (serviceName @ ''.tar''))"
  obtain r1 s1 where d: "deploy_steps env serviceName tag regUrl globalConfig ?ftp manifestPath ?s0 = (r1, s1)"
    by (cases "deploy_steps env serviceName tag regUrl globalConfig ?ftp manifestPath ?s0")
  from assms d have "\<exists>u. r1 = Inr u \<and> s' = log ''--- DEPLOYMENT SUCCESSFUL ---'' s1"
    by (cases r1) (auto simp: run_deploy_def Let_def split: if_splits error.splits)
  then obtain u where "r1 = Inr u" "s' = log ''--- DEPLOYMENT SUCCESSFUL ---'' s1" by blast
  with deploy_steps_dir[OF d[unfolded \<open>r1 = Inr u\<close>]] show ?thesis by simp
qed

definition demo_config :: globalConfig where
  "demo_config = \<lparr>reg_username = Some ''u'', reg_password = Some ''pw'',
                   git_repo_url = ''https://git.local/ops.git'',
                   username = Some ''dev'', password = Some ''secret''\<rparr>"

definition demo_repo :: "(path \<times> string) list" where
  "demo_repo =
     [([''README.md''], ''ops''),
      ([''k8s'', ''deploy.yaml''], ''image: reg.local/ns/svc:v1.0.0''),
      ([''charts'', ''empty'', ''notes.txt''], ''nothing here'')]"

definition deploy_env :: env where
  "deploy_env = push_env\<lparr>git_clone := (\<lambda>url user pass. (demo_repo, None))\<rparr>"

definition upload_net :: "request list \<Rightarrow> request \<Rightarrow> error + response" where
  "upload_net hist rq =
     (if req_method rq = ''HEAD''
      then Inl (AxiosError (Some (ok_response\<lparr>status := 500\<rparr>)) ''Request failed with status code 500'')
      else if req_method rq = ''POST''
      then Inr (ok_response\<lparr>status := 202, resp_headers := [(''location'', ''/v2/ns/svc/blobs/uploads/u1'')]\<rparr>)
      else Inr ok_response)"

definition blob_state :: state where
  "blob_state = demo_state\<lparr>disk := [([''layer.tar''], FFile ''abc'')]\<rparr>"


section \<open>Properties of the extraction and of the manifest locator\<close>

definition isFile :: "fsys \<Rightarrow> path \<Rightarrow> bool" where
  "isFile fs p = (\<exists>c. map_of fs p = Some (FFile c))"

lemma mkdirs_keeps:
  assumes "mkdirs fs base xs = Inr fs'" and "map_of fs p = Some n"
  shows "map_of fs' p = Some n"
  using assms
proof (induction xs arbitrary: fs base)
  case Nil
  then show ?case by simp
next
  case (Cons x xs)
  show ?case
  proof (cases "map_of fs (base @ [x])")
    case None
    with Cons.prems have m: "mkdirs (AList.update (base @ [x]) FDir fs) (base @ [x]) xs = Inr fs'"
      by simp
    from None Cons.prems(2) have "p \<noteq> base @ [x]" by auto
    with Cons.prems(2) have "map_of (AList.update (base @ [x]) FDir fs) p = Some n"
      by (simp add: update_conv')
    from Cons.IH[OF m this] show ?thesis .
  next
    case (Some k)
    with Cons.prems show ?thesis
      by (cases k) (auto intro: Cons.IH)
  qed
qed

lemma ensureDir_keeps:
  "ensureDir fs q = Inr fs' \<Longrightarrow> map_of fs p = Some n \<Longrightarrow> map_of fs' p = Some n"
  unfolding ensureDir_def by (rule mkdirs_keeps)

lemma writeFile_written:
  assumes "writeFile fs p c = Inr fs'"
  shows "map_of fs' p = Some (FFile c) \<and> (\<forall>q. q \<noteq> p \<longrightarrow> map_of fs' q = map_of fs q)"
  using assms by (auto simp: writeFile_def update_conv' split: if_splits)

text \<open>One entry: what is on the disk after it, and what it leaves as it was.\<close>

lemma extract_entry_written:
  assumes "extract_entry tempDir e fs = Inr fs'"
  shows "(header_type e = ''directory'' \<longrightarrow> isDirectory fs' (path_join tempDir (header_name e)))
       \<and> (header_type e \<noteq> ''directory'' \<longrightarrow>
            map_of fs' (path_join tempDir (header_name e)) = Some (FFile (contents e)))"
  using assms
  by (auto simp: extract_entry_def Let_def split: if_splits sum.splits
           dest: ensureDir_dirs writeFile_written)

lemma extract_entry_keeps:
  assumes "extract_entry tempDir e fs = Inr fs'"
  shows "(isDirectory fs q \<longrightarrow> isDirectory fs' q) \<and> (isFile fs q \<longrightarrow> isFile fs' q)
       \<and> (q \<noteq> path_join tempDir (header_name e) \<longrightarrow> map_of fs q = Some n \<longrightarrow> map_of fs' q = Some n)"
proof (cases "header_type e = ''directory''")
  case True
  with assms have "ensureDir fs (path_join tempDir (header_name e)) = Inr fs'"
    by (simp add: extract_entry_def split: sum.splits)
  then show ?thesis
    by (auto simp: isFile_def dest: ensureDir_dirs ensureDir_keeps)
next
  case False
  with assms obtain fs1 where e1: "ensureDir fs (dirname (path_join tempDir (header_name e))) = Inr fs1"
    and w: "writeFile fs1 (path_join tempDir (header_name e)) (contents e) = Inr fs'"
    by (auto simp: extract_entry_def Let_def split: sum.splits)
  have d: "isDirectory fs' q" if "isDirectory fs q"
    using ensureDir_dirs[OF e1] that writeFile_dirs[OF w] by blast
  have f: "isFile fs' q" if "isFile fs q"
  proof -
    from that obtain c where "map_of fs q = Some (FFile c)" by (auto simp: isFile_def)
    from ensureDir_keeps[OF e1 this] have "map_of fs1 q = Some (FFile c)" .
    with writeFile_written[OF w] show ?thesis
      by (cases "q = path_join tempDir (header_name e)") (auto simp: isFile_def)
  qed
  have k: "map_of fs' q = Some n" if "q \<noteq> path_join tempDir (header_name e)" "map_of fs q = Some n"
    using ensureDir_keeps[OF e1 that(2)] writeFile_written[OF w] that(1) by simp
  from d f k show ?thesis by blast
qed

lemma extract_entries_keeps:
  assumes "extract_entries tempDir es fs = (Inr u, fs')"
  shows "(isDirectory fs q \<longrightarrow> isDirectory fs' q) \<and> (isFile fs q \<longrightarrow> isFile fs' q)
       \<and> ((\<forall>e \<in> set es. path_join tempDir (header_name e) \<noteq> q) \<longrightarrow> map_of fs q = Some n
            \<longrightarrow> map_of fs' q = Some n)"
  using assms
proof (induction es arbitrary: fs)
  case Nil
  then show ?case by simp
next
  case (Cons e es)
  from Cons.prems obtain fs1 where e1: "extract_entry tempDir e fs = Inr fs1"
    and rest: "extract_entries tempDir es fs1 = (Inr u, fs')"
    by (auto split: sum.splits)
  from extract_entry_keeps[OF e1, of q n] Cons.IH[OF rest] show ?case
    by auto
qed

text \<open>A path strictly below a directory, reached through no directory whose name includes
  \<open>.git\<close>.\<close>

definition below_skipping_git :: "path \<Rightarrow> path \<Rightarrow> bool" where
  "below_skipping_git dir f =
     (strict_prefix dir f
      \<and> (\<forall>seg \<in> set (butlast (drop (length dir) f)). \<not> str_includes seg ''.git''))"

lemma below_child:
  assumes "\<not> str_includes file ''.git''" and "below_skipping_git (dir @ [file]) f"
  shows "below_skipping_git dir f"
proof -
  from assms(2) obtain rest where f: "f = dir @ file # rest" "rest \<noteq> []"
    by (auto simp: below_skipping_git_def strict_prefix_def prefix_def)
  from assms(2) f have "\<forall>seg \<in> set (butlast rest). \<not> str_includes seg ''.git''"
    by (simp add: below_skipping_git_def)
  with assms(1) f show ?thesis
    by (auto simp: below_skipping_git_def strict_prefix_def)
qed

lemma below_file: "below_skipping_git dir (dir @ [file])"
  by (simp add: below_skipping_git_def strict_prefix_def)

lemma getAllFiles_within:
  "set (getAllFiles fs dir acc) \<subseteq> set acc \<union> {f. below_skipping_git dir f \<and> \<not> isDirectory fs f}"
proof (induction fs dir acc rule: getAllFiles.induct)
  case (1 fs dirPath arrayOfFiles)
  let ?step = "\<lambda>file acc.
     if isDirectory fs (dirPath @ [file])
     then if \<not> str_includes file ''.git''
          then getAllFiles fs (dirPath @ [file]) acc else acc
     else acc @ [dirPath @ [file]]"
  let ?G = "{f. below_skipping_git dirPath f \<and> \<not> isDirectory fs f}"
  have "set (fold ?step names acc) \<subseteq> set acc \<union> ?G"
    if "set names \<subseteq> set (readdir fs dirPath)" for names acc
    using that
  proof (induction names arbitrary: acc)
    case Nil
    then show ?case by simp
  next
    case (Cons x names)
    then have x: "x \<in> set (readdir fs dirPath)" and names: "set names \<subseteq> set (readdir fs dirPath)"
      by simp_all
    have "set (?step x acc) \<subseteq> set acc \<union> ?G"
    proof (cases "isDirectory fs (dirPath @ [x])")
      case False
      then show ?thesis by (simp add: below_file)
    next
      case True
      show ?thesis
      proof (cases "str_includes x ''.git''")
        case True
        with \<open>isDirectory fs (dirPath @ [x])\<close> show ?thesis by simp
      next
        case False
        from "1.IH"[OF x True False, of acc]
        have "set (getAllFiles fs (dirPath @ [x]) acc)
                \<subseteq> set acc \<union> {f. below_skipping_git (dirPath @ [x]) f \<and> \<not> isDirectory fs f}" .
        with below_child[OF False] True False show ?thesis
          by auto
      qed
    qed
    moreover from Cons.IH[OF names, of "?step x acc"]
    have "set (fold ?step names (?step x acc)) \<subseteq> set (?step x acc) \<union> ?G" .
    ultimately show ?case by auto
  qed
  from this[of "readdir fs dirPath" arrayOfFiles] show ?case
    by (subst getAllFiles.simps) simp
qed

text \<open>A file the loop of \<open>findYamlFile\<close> accepts: a YAML file name and a content that
  includes the identifier.\<close>

definition yaml_match :: "fsys \<Rightarrow> string \<Rightarrow> path \<Rightarrow> bool" where
  "yaml_match fs identifier file =
     ((suffix ''.yaml'' (path_str file) \<or> suffix ''.yml'' (path_str file))
      \<and> (case readFile fs file of Inl err \<Rightarrow> False | Inr content \<Rightarrow> str_includes content identifier))"

lemma findYamlLoop_Some:
  assumes "findYamlLoop fs identifier baseDir files = Inr (Some t)"
  shows "\<exists>pre f post. files = pre @ f # post \<and> yaml_match fs identifier f
           \<and> (\<forall>g \<in> set pre. \<not> yaml_match fs identifier g) \<and> t = path_relative baseDir f"
  using assms
proof (induction files)
  case Nil
  then show ?case by simp
next
  case (Cons x files)
  show ?case
  proof (cases "yaml_match fs identifier x")
    case True
    with Cons.prems have "t = path_relative baseDir x"
      by (auto simp: yaml_match_def split: sum.splits if_splits)
    with True have "x # files = [] @ x # files \<and> yaml_match fs identifier x
           \<and> (\<forall>g \<in> set []. \<not> yaml_match fs identifier g) \<and> t = path_relative baseDir x"
      by simp
    then show ?thesis by blast
  next
    case False
    with Cons.prems have "findYamlLoop fs identifier baseDir files = Inr (Some t)"
      by (auto simp: yaml_match_def split: sum.splits if_splits)
    from Cons.IH[OF this] obtain pre f post where
      "files = pre @ f # post" "yaml_match fs identifier f"
      "\<forall>g \<in> set pre. \<not> yaml_match fs identifier g" "t = path_relative baseDir f"
      by blast
    with False have "x # files = (x # pre) @ f # post \<and> yaml_match fs identifier f
           \<and> (\<forall>g \<in> set (x # pre). \<not> yaml_match fs identifier g) \<and> t = path_relative baseDir f"
      by simp
    then show ?thesis by blast
  qed
qed

lemma findYamlLoop_None:
  assumes "findYamlLoop fs identifier baseDir files = Inr None"
  shows "\<forall>f \<in> set files. \<not> yaml_match fs identifier f"
  using assms
  by (induction files) (auto simp: yaml_match_def split: sum.splits if_splits)

lemma isDirectory_exists: "isDirectory fs p \<Longrightarrow> pathExists fs p"
  by (auto simp: isDirectory_def pathExists_def)

lemma findYamlFile_within:
  assumes "findYamlFile fs dir identifier baseDir = Inr (Some t)"
  shows "\<exists>pre f post. getAllFiles fs dir [] = pre @ f # post
           \<and> t = path_relative baseDir f \<and> yaml_match fs identifier f
           \<and> (\<forall>g \<in> set pre. \<not> yaml_match fs identifier g)
           \<and> below_skipping_git dir f"
proof -
  from findYamlLoop_Some[OF assms[unfolded findYamlFile_def]]
  obtain pre f post where p: "getAllFiles fs dir [] = pre @ f # post" "yaml_match fs identifier f"
    "\<forall>g \<in> set pre. \<not> yaml_match fs identifier g" "t = path_relative baseDir f"
    by blast
  from p(1) have "f \<in> set (getAllFiles fs dir [])" by simp
  with getAllFiles_within[of fs dir "[]"] have "below_skipping_git dir f" by auto
  with p show ?thesis by blast
qed

definition repo_disk :: fsys where
  "repo_disk =
     [([''repo''], FDir),
      ([''repo'', ''.git''], FDir),
      ([''repo'', ''.git'', ''svc.yaml''], FFile ''svc''),
      ([''repo'', ''charts''], FDir),
      ([''repo'', ''charts'', ''notes.txt''], FFile ''svc is not deployed from here''),
      ([''repo'', ''charts'', ''values.yaml''], FFile ''image: reg.local/ns/other:v1.0.0''),
      ([''repo'', ''k8s''], FDir),
      ([''repo'', ''k8s'', ''deploy.yaml''], FFile ''image: reg.local/ns/svc:v1.0.0'')]"

definition repo_state :: state where
  "repo_state = demo_state\<lparr>disk := repo_disk\<rparr>"

definition git_entries :: "tar_entry list" where
  "git_entries =
     [\<lparr>header_name = ''.git'', header_type = ''directory'', contents = []\<rparr>,
      \<lparr>header_name = ''.git/config'', header_type = ''file'', contents = ''[core]''\<rparr>,
      \<lparr>header_name = ''layer.tar'', header_type = ''file'', contents = ''abc''\<rparr>]"

section \<open>The requests of a run\<close>















lemma pushBlob_registryUrl [simp]: "registryUrl (snd (pushBlob env repo filePath s)) = registryUrl s"
  using pushBlob_effect[of env repo filePath s] by (cases "pushBlob env repo filePath s") simp



lemma pushLayers_registryUrl [simp]:
  "registryUrl (snd (pushLayers env repo tempDir files acc s)) = registryUrl s"
  using pushLayers_effect[of env repo tempDir files acc s]
  by (cases "pushLayers env repo tempDir files acc s") simp



lemma pushTarball_registryUrl [simp]:
  "registryUrl (snd (pushTarball env tarPath repo tag s)) = registryUrl s"
proof -
  obtain r s' where p: "pushTarball env tarPath repo tag s = (r, s')"
    by (cases "pushTarball env tarPath repo tag s")
  from pushTarball_stages[OF p] have "registryUrl s' = registryUrl s"
  proof (elim disjE exE conjE)
    assume "registryUrl s' = registryUrl s"
    then show ?thesis .
  next
    fix s2 r3 s3 configFilename layerFilenames err
    assume "registryUrl s2 = registryUrl s"
      "pushBlobsAndManifest env repo tag (tempDir_of env) configFilename layerFilenames s2 = (r3, s3)"
      "s' = s3"
    with pushBlobsAndManifest_effect[of env repo tag "tempDir_of env" configFilename layerFilenames s2 r3 s3]
    show ?thesis by simp
  next
    fix s2 r3 s3 configFilename layerFilenames
    assume "registryUrl s2 = registryUrl s"
      "pushBlobsAndManifest env repo tag (tempDir_of env) configFilename layerFilenames s2 = (r3, s3)"
      "s' = s3\<lparr>disk := remove (disk s3) (tempDir_of env)\<rparr>"
    with pushBlobsAndManifest_effect[of env repo tag "tempDir_of env" configFilename layerFilenames s2 r3 s3]
    show ?thesis by simp
  qed
  with p show ?thesis by simp
qed






lemma updateYaml_sent [simp]: "sent (snd (updateYaml filePath identifier newTag s)) = sent s"
  by (simp add: updateYaml_def split: sum.splits)

lemma patch_and_push_sent [simp]:
  "sent (snd (patch_and_push env serviceName tag globalConfig repoDir repoName target s)) = sent s"
proof -
  let ?s0 = "log (''Modifying file: '' @ target) s"
  obtain r1 s1 where u: "updateYaml (path_join repoDir target) (identifier_of repoName) tag ?s0 = (r1, s1)"
    by (cases "updateYaml (path_join repoDir target) (identifier_of repoName) tag ?s0")
  from u have "s1 = snd (updateYaml (path_join repoDir target) (identifier_of repoName) tag ?s0)"
    by simp
  then have d1: "sent s1 = sent s"
    by (simp only: updateYaml_sent log_fields)
  show ?thesis
    unfolding patch_and_push_def u using d1
    by (cases r1) (auto simp: andThen_def git_step_def split: option.splits)
qed





section \<open>Properties of the tag patcher\<close>

lemma get_substitution_plain:
  "CHR ''$'' \<notin> set t \<Longrightarrow> get_substitution m p f caps t = t"
  by (induction t) auto

lemma get_substitution_group1:
  "get_substitution m p f [g1, g2] (CHR ''$'' # CHR ''1'' # tag)
     = g1 @ get_substitution m p f [g1, g2] tag"
  by (subst get_substitution.simps(2), cases tag)
     (simp_all add: is_digit_def digit_val_def del: get_substitution.simps(2))

lemma get_substitution_tag:
  assumes "CHR ''$'' \<notin> set tag"
  shows "get_substitution m p f [g1, g2] (''$1'' @ tag) = g1 @ tag"
  using get_substitution_group1[of m p f g1 g2 tag] get_substitution_plain[OF assms, of m p f "[g1, g2]"]
  by simp

text \<open>The literal \<open>identifier:\<close> of a plain identifier: not empty, no white space in it.\<close>

definition no_space :: "string \<Rightarrow> bool" where
  "no_space lit = (lit \<noteq> [] \<and> (\<forall>c \<in> set lit. \<not> is_space c))"

lemma line_terminator_space: "is_line_terminator c \<Longrightarrow> is_space c"
  by (auto simp: is_line_terminator_def is_space_def)

lemma plain_no_space:
  assumes "plain_identifier identifier"
  shows "no_space (identifier @ '':'')"
proof -
  have "\<not> is_space c" if "c \<in> set identifier" for c
    using assms that
    by (auto simp: plain_identifier_def is_space_def Let_def)
  then show ?thesis
    by (auto simp: no_space_def is_space_def)
qed

text \<open>The text up to and including the last occurrence of a literal, and the text after
  it; \<open>None\<close> when the literal does not occur.\<close>

fun last_split :: "string \<Rightarrow> string \<Rightarrow> (string \<times> string) option" where
  "last_split lit [] = lit_here lit []"
| "last_split lit (c # cs) =
     (case last_split lit cs of
        Some (m, r) \<Rightarrow> Some (c # m, r)
      | None \<Rightarrow> lit_here lit (c # cs))"

text \<open>What follows a line: nothing, or a line terminator and more text.\<close>

definition line_end :: "string \<Rightarrow> bool" where
  "line_end T = (case T of [] \<Rightarrow> True | c # cs \<Rightarrow> is_line_terminator c)"

definition one_line :: "string \<Rightarrow> bool" where
  "one_line l = (\<forall>c \<in> set l. \<not> is_line_terminator c)"

lemma no_space_head: "no_space lit \<Longrightarrow> is_space c \<Longrightarrow> \<not> prefix lit (c # cs)"
  by (cases lit) (auto simp: no_space_def)

lemma lit_here_space: "no_space lit \<Longrightarrow> is_space c \<Longrightarrow> lit_here lit (c # cs) = None"
  by (simp add: lit_here_def no_space_head)

lemma lit_here_Nil: "no_space lit \<Longrightarrow> lit_here lit [] = None"
  by (simp add: lit_here_def no_space_def)

lemma prefix_into_end:
  assumes "no_space lit" "line_end T"
  shows "prefix lit (x @ T) \<longleftrightarrow> prefix lit x"
proof
  assume "prefix lit (x @ T)"
  then have "prefix lit x \<or> (\<exists>us. lit = x @ us \<and> prefix us T)"
    by (simp add: prefix_append)
  then show "prefix lit x"
  proof (elim disjE exE conjE)
    fix us
    assume lit: "lit = x @ us" and us: "prefix us T"
    show ?thesis
    proof (cases us)
      case Nil
      with lit show ?thesis by simp
    next
      case (Cons u us')
      with us obtain T' where "T = u # T'"
        by (cases T) auto
      with assms(2) have "is_line_terminator u" by (simp add: line_end_def)
      moreover from lit Cons have "u \<in> set lit" by simp
      ultimately show ?thesis
        using assms(1) by (auto simp: no_space_def dest: line_terminator_space)
    qed
  qed
qed (simp add: prefix_prefix)

lemma lit_here_line:
  assumes "no_space lit" "line_end T"
  shows "lit_here lit (x @ T) = map_option (\<lambda>(m, r). (m, r @ T)) (lit_here lit x)"
proof (cases "prefix lit x")
  case True
  then have "length lit \<le> length x" by (rule prefix_length_le)
  with True prefix_into_end[OF assms, of x] show ?thesis
    by (simp add: lit_here_def)
next
  case False
  with prefix_into_end[OF assms, of x] show ?thesis
    by (simp add: lit_here_def)
qed

lemma dots_line:
  assumes "no_space lit" "line_end T" "one_line l"
  shows "dots_then_lit lit (l @ T) = map_option (\<lambda>(m, r). (m, r @ T)) (last_split lit l)"
  using assms(3)
proof (induction l)
  case Nil
  show ?case
  proof (cases T)
    case Nil
    then show ?thesis by (simp add: lit_here_Nil[OF assms(1)])
  next
    case (Cons t T')
    with assms(2) have "is_line_terminator t" by (simp add: line_end_def)
    with Cons assms(1) show ?thesis
      by (simp add: lit_here_space lit_here_Nil line_terminator_space)
  qed
next
  case (Cons c l)
  then have c: "\<not> is_line_terminator c" and l: "one_line l"
    by (simp_all add: one_line_def)
  from lit_here_line[OF assms(1,2), of "c # l"]
  have lh: "lit_here lit (c # l @ T) = map_option (\<lambda>(m, r). (m, r @ T)) (lit_here lit (c # l))"
    by simp
  from Cons.IH[OF l] c lh show ?case
    by (cases "last_split lit l") auto
qed

lemma dots_skip_spaces:
  assumes "no_space lit" "\<forall>c \<in> set w. is_space c \<and> \<not> is_line_terminator c"
  shows "dots_then_lit lit (w @ z) = map_option (\<lambda>(m, r). (w @ m, r)) (dots_then_lit lit z)"
  using assms(2)
proof (induction w)
  case Nil
  then show ?case by (simp add: option.map_ident case_prod_unfold)
next
  case (Cons c w)
  then show ?case
    by (cases "dots_then_lit lit z") (auto simp: lit_here_space[OF assms(1)])
qed

lemma spaces_line:
  assumes "no_space lit" "\<forall>c \<in> set w. is_space c \<and> \<not> is_line_terminator c"
    and "z = [] \<or> \<not> is_space (hd z)"
  shows "spaces_then lit (w @ z) = dots_then_lit lit (w @ z)"
  using assms(2)
proof (induction w)
  case Nil
  from assms(3) show ?case by (cases z) auto
next
  case (Cons c w)
  then have ih: "spaces_then lit (w @ z) = dots_then_lit lit (w @ z)"
    and c: "is_space c" "\<not> is_line_terminator c"
    by simp_all
  show ?case
    using ih c by (cases "dots_then_lit lit (w @ z)") auto
qed

lemma last_split_none: "last_split lit l = None \<longleftrightarrow> \<not> str_includes l lit"
proof (induction l)
  case Nil
  then show ?case by (simp add: str_includes_def lit_here_def)
next
  case (Cons c l)
  then show ?case
    by (cases "last_split lit l") (auto simp: str_includes_def lit_here_def)
qed

lemma last_split_shape:
  "last_split lit l = Some (m, t) \<Longrightarrow> \<exists>a. m = a @ lit \<and> l = a @ lit @ t"
proof (induction l arbitrary: m)
  case Nil
  then show ?case by (auto simp: lit_here_def split: if_splits)
next
  case (Cons c l)
  show ?case
  proof (cases "last_split lit l")
    case None
    with Cons.prems have "lit_here lit (c # l) = Some (m, t)" by simp
    then have "m = [] @ lit \<and> c # l = [] @ lit @ t"
      by (auto simp: lit_here_def prefix_def split: if_splits)
    then show ?thesis by blast
  next
    case (Some p)
    obtain m' t' where p: "p = (m', t')" by (cases p)
    with Some Cons.prems have mt: "m = c # m'" "t = t'" by simp_all
    from Cons.IH[of m'] Some p mt obtain a where "m' = a @ lit" "l = a @ lit @ t" by auto
    with mt have "m = (c # a) @ lit \<and> c # l = (c # a) @ lit @ t" by simp
    then show ?thesis by blast
  qed
qed

lemma last_split_last:
  "lit \<noteq> [] \<Longrightarrow> last_split lit l = Some (m, t) \<Longrightarrow> last_split lit t = None"
proof (induction l arbitrary: m)
  case Nil
  then show ?case by (auto simp: lit_here_def split: if_splits)
next
  case (Cons c l)
  show ?case
  proof (cases "last_split lit l")
    case None
    with Cons.prems have lh: "lit_here lit (c # l) = Some (m, t)" by simp
    note ne = \<open>lit \<noteq> []\<close>
    from lh have "suffix t l \<or> t = c # l"
      by (cases lit) (auto simp: lit_here_def suffix_def prefix_def split: if_splits
                           intro: exI[of _ "take n l" for n])
    moreover have "last_split lit t = None" if "suffix t l"
    proof (rule ccontr)
      assume "last_split lit t \<noteq> None"
      then have "str_includes t lit" by (simp add: last_split_none)
      with that have "str_includes l lit"
        by (auto simp: str_includes_def suffix_def suffixes_append)
      with None show False by (simp add: last_split_none)
    qed
    moreover have "t \<noteq> c # l"
      using lit_here_length[OF lh] lh ne by (auto simp: lit_here_def split: if_splits)
    ultimately show ?thesis by blast
  next
    case (Some p)
    with Cons show ?thesis by (cases p) auto
  qed
qed

lemma last_split_prepend:
  "last_split lit b = Some (m, t) \<Longrightarrow> last_split lit (y @ b) = Some (y @ m, t)"
  by (induction y) auto

text \<open>A line in which no \<open>image:\<close> is followed by white space only up to the end of the
  line.\<close>

definition calm :: "string \<Rightarrow> bool" where
  "calm l = (\<forall>r \<in> set (suffixes l). prefix ''image:'' r \<longrightarrow> (\<exists>c \<in> set (drop 6 r). \<not> is_space c))"

text \<open>The pattern \<open>image:\<close>, white space, any text, \<open>identifier:\<close> at the start of a text and
  somewhere in a line.\<close>

definition head_match :: "string \<Rightarrow> string \<Rightarrow> bool" where
  "head_match identifier x =
     (prefix ''image:'' x
      \<and> (case drop 6 x of [] \<Rightarrow> False | c # b \<Rightarrow> is_space c \<and> str_includes b (identifier @ '':'')))"

definition line_matches :: "string \<Rightarrow> string \<Rightarrow> bool" where
  "line_matches identifier l = (\<exists>r \<in> set (suffixes l). head_match identifier r)"

text \<open>The line with the text after its last \<open>identifier:\<close> replaced by the tag, when the
  line matches; the line as it is otherwise.\<close>

definition patch_line :: "string \<Rightarrow> string \<Rightarrow> string \<Rightarrow> string" where
  "patch_line identifier tag l =
     (if line_matches identifier l
      then (case last_split (identifier @ '':'') l of None \<Rightarrow> l | Some (m, t) \<Rightarrow> m @ tag)
      else l)"

lemma no_space_image: "no_space ''image:''"
  by (simp add: no_space_def is_space_def)

lemma one_line_Cons: "one_line (c # l) \<longleftrightarrow> \<not> is_line_terminator c \<and> one_line l"
  by (auto simp: one_line_def)

lemma one_line_append: "one_line (a @ b) \<longleftrightarrow> one_line a \<and> one_line b"
  by (auto simp: one_line_def)

lemma calm_Cons: "calm (c # l) \<Longrightarrow> calm l"
  by (simp add: calm_def)

lemma calm_head: "calm x \<Longrightarrow> prefix ''image:'' x \<Longrightarrow> \<exists>c \<in> set (drop 6 x). \<not> is_space c"
  by (cases x) (auto simp: calm_def)

lemma spaces_then_line:
  assumes lit: "no_space lit" and T: "line_end T" and b: "one_line b"
    and ns: "\<exists>c \<in> set b. \<not> is_space c"
  shows "spaces_then lit (b @ T) = map_option (\<lambda>(m, r). (m, r @ T)) (last_split lit b)"
proof -
  let ?w = "takeWhile is_space b" and ?z = "dropWhile is_space b"
  have bz: "b = ?w @ ?z" by simp
  from ns have z: "?z \<noteq> []" by (auto simp: dropWhile_eq_Nil_conv)
  then have hz: "\<not> is_space (hd ?z)" by (rule hd_dropWhile)
  have w: "\<forall>c \<in> set ?w. is_space c \<and> \<not> is_line_terminator c"
  proof
    fix c assume c: "c \<in> set ?w"
    then have "is_space c" by (rule set_takeWhileD[THEN conjunct2])
    moreover from c have "c \<in> set b" by (rule set_takeWhileD[THEN conjunct1])
    with b have "\<not> is_line_terminator c" by (simp add: one_line_def)
    ultimately show "is_space c \<and> \<not> is_line_terminator c" ..
  qed
  from z hz have "?z @ T = [] \<or> \<not> is_space (hd (?z @ T))" by simp
  from spaces_line[OF lit w this]
  have "spaces_then lit (b @ T) = dots_then_lit lit (b @ T)"
    by (simp only: append_assoc[symmetric] takeWhile_dropWhile_id)
  with dots_line[OF lit T b] show ?thesis by simp
qed

lemma group1_line:
  assumes lit: "no_space (identifier @ '':'')" and T: "line_end T" and x: "one_line x" "calm x"
  shows "group1_at identifier (x @ T) =
          (if prefix ''image:'' x
           then (case drop 6 x of
                   [] \<Rightarrow> None
                 | c # b \<Rightarrow>
                     if is_space c
                     then map_option (\<lambda>(m, r). (''image:'' @ c # m, r @ T))
                            (last_split (identifier @ '':'') b)
                     else None)
           else None)"
proof (cases "prefix ''image:'' x")
  case False
  with prefix_into_end[OF no_space_image T, of x] show ?thesis
    by (simp add: group1_at_def)
next
  case True
  then have len: "6 \<le> length x" using prefix_length_le by fastforce
  from calm_head[OF x(2) True] obtain c b where cb: "drop 6 x = c # b"
    by (cases "drop 6 x") auto
  from True prefix_into_end[OF no_space_image T, of x] have pT: "prefix ''image:'' (x @ T)"
    by simp
  from len cb have dT: "drop 6 (x @ T) = c # b @ T" by simp
  show ?thesis
  proof (cases "is_space c")
    case False
    with True pT dT cb show ?thesis by (simp add: group1_at_def)
  next
    case sp: True
    from calm_head[OF x(2) True] cb sp have ns: "\<exists>d \<in> set b. \<not> is_space d" by auto
    from x(1) have "one_line (drop 6 x)"
      by (auto simp: one_line_def dest: in_set_dropD)
    with cb have b: "one_line b" by (simp add: one_line_Cons)
    from spaces_then_line[OF lit T b ns] True pT dT cb sp show ?thesis
      by (cases "last_split (identifier @ '':'') b") (auto simp: group1_at_def)
  qed
qed

lemma take_line:
  assumes "one_line t" "line_end T"
  shows "takeWhile (\<lambda>c. \<not> is_line_terminator c) (t @ T) = t"
    and "dropWhile (\<lambda>c. \<not> is_line_terminator c) (t @ T) = T"
  using assms
  by (cases T; simp add: one_line_def line_end_def takeWhile_append dropWhile_append)+

lemma match_at_miss:
  assumes "no_space (identifier @ '':'')" "line_end T" "one_line x" "calm x"
    and "\<not> head_match identifier x"
  shows "match_at identifier (x @ T) = None"
  using assms(5) unfolding match_at_def group1_line[OF assms(1-4)]
  by (auto simp: head_match_def last_split_none[symmetric] split: list.splits)

lemma match_at_hit:
  assumes lit: "no_space (identifier @ '':'')" and T: "line_end T" and x: "one_line x" "calm x"
    and h: "head_match identifier x"
  shows "\<exists>m t. last_split (identifier @ '':'') x = Some (m, t)
            \<and> match_at identifier (x @ T) = Some (m, t, T)"
proof -
  from h obtain c b where p: "prefix ''image:'' x" and cb: "drop 6 x = c # b"
    and sp: "is_space c" and inc: "str_includes b (identifier @ '':'')"
    by (auto simp: head_match_def split: list.splits)
  from inc obtain m t where mt: "last_split (identifier @ '':'') b = Some (m, t)"
    using last_split_none[of "identifier @ '':''" b] by (cases "last_split (identifier @ '':'') b") auto
  from p obtain y where y: "x = ''image:'' @ y" by (auto simp: prefix_def)
  with cb have "y = c # b" by simp
  with y have xe: "x = (''image:'' @ [c]) @ b" by simp
  from last_split_prepend[OF mt, of "''image:'' @ [c]"] xe
  have ls: "last_split (identifier @ '':'') x = Some (''image:'' @ c # m, t)" by simp
  from last_split_shape[OF mt] obtain a where "b = a @ (identifier @ '':'') @ t" by blast
  then have "x = ((''image:'' @ [c]) @ a @ identifier @ '':'') @ t"
    using xe by simp
  with x(1) have t: "one_line t"
    by (simp only: one_line_append)
  have "match_at identifier (x @ T) = Some (''image:'' @ c # m, t, T)"
    unfolding match_at_def group1_line[OF lit T x]
    using p cb sp mt take_line[OF t T] by simp
  with ls show ?thesis by blast
qed

lemma line_matches_Nil: "\<not> line_matches identifier []"
  by (simp add: line_matches_def head_match_def)

lemma line_matches_Cons:
  "line_matches identifier (c # l) \<longleftrightarrow> head_match identifier (c # l) \<or> line_matches identifier l"
  by (auto simp: line_matches_def)

lemma str_includes_suffix: "suffix r l \<Longrightarrow> str_includes r p \<Longrightarrow> str_includes l p"
  by (auto simp: str_includes_def suffix_def suffixes_append)

lemma head_match_includes:
  assumes "head_match identifier r"
  shows "str_includes r (identifier @ '':'')"
proof -
  from assms obtain c b where "drop 6 r = c # b" "str_includes b (identifier @ '':'')"
    by (auto simp: head_match_def split: list.splits)
  moreover then have "suffix b r"
    by (metis suffix_drop suffix_ConsD)
  ultimately show ?thesis by (auto intro: str_includes_suffix)
qed

lemma line_matches_includes:
  "line_matches identifier l \<Longrightarrow> str_includes l (identifier @ '':'')"
  by (auto simp: line_matches_def intro: str_includes_suffix head_match_includes)

lemma patch_line_Cons:
  assumes "\<not> head_match identifier (c # l)"
  shows "patch_line identifier tag (c # l) = c # patch_line identifier tag l"
proof (cases "line_matches identifier l")
  case False
  with assms show ?thesis by (simp add: patch_line_def line_matches_Cons)
next
  case True
  from line_matches_includes[OF True] obtain m t where "last_split (identifier @ '':'') l = Some (m, t)"
    using last_split_none[of "identifier @ '':''" l] by (cases "last_split (identifier @ '':'') l") auto
  with True show ?thesis by (simp add: patch_line_def line_matches_Cons)
qed

lemma replace_matches_Nil: "replace_matches identifier template pre [] = []"
  by (subst replace_matches.simps) (simp add: match_at_def group1_at_def)

lemma replace_line:
  assumes lit: "no_space (identifier @ '':'')" and tag: "CHR ''$'' \<notin> set tag" and T: "line_end T"
    and x: "one_line x" "calm x"
  shows "replace_matches identifier (''$1'' @ tag) pre (x @ T)
           = patch_line identifier tag x @ replace_matches identifier (''$1'' @ tag) (pre @ x) T"
  using x
proof (induction x arbitrary: pre)
  case Nil
  then show ?case by (simp add: patch_line_def line_matches_Nil)
next
  case (Cons c x)
  from Cons.prems have x: "one_line x" "calm x"
    by (auto simp: one_line_Cons dest: calm_Cons)
  show ?case
  proof (cases "head_match identifier (c # x)")
    case True
    from match_at_hit[OF lit T Cons.prems True] obtain m t where
      ls: "last_split (identifier @ '':'') (c # x) = Some (m, t)"
      and ma: "match_at identifier ((c # x) @ T) = Some (m, t, T)"
      by blast
    from last_split_shape[OF ls] have cx: "c # x = m @ t" by auto
    from True have lm: "line_matches identifier (c # x)" by (simp add: line_matches_Cons)
    have "replace_matches identifier (''$1'' @ tag) pre ((c # x) @ T)
            = get_substitution (m @ t) pre T [m, t] (''$1'' @ tag)
              @ replace_matches identifier (''$1'' @ tag) (pre @ m @ t) T"
      by (subst replace_matches.simps) (use ma in \<open>simp del: replace_matches.simps\<close>)
    also have "\<dots> = (m @ tag) @ replace_matches identifier (''$1'' @ tag) (pre @ c # x) T"
      by (simp only: get_substitution_tag[OF tag] cx)
    also have "m @ tag = patch_line identifier tag (c # x)"
      using lm ls by (simp add: patch_line_def)
    finally show ?thesis .
  next
    case False
    from match_at_miss[OF lit T Cons.prems False]
    have ma: "match_at identifier ((c # x) @ T) = None" .
    have "replace_matches identifier (''$1'' @ tag) pre ((c # x) @ T)
            = c # replace_matches identifier (''$1'' @ tag) (pre @ [c]) (x @ T)"
      by (subst replace_matches.simps) (use ma in \<open>simp del: replace_matches.simps\<close>)
    also have "\<dots> = c # patch_line identifier tag x
                        @ replace_matches identifier (''$1'' @ tag) ((pre @ [c]) @ x) T"
      by (simp only: Cons.IH[OF x])
    finally show ?thesis
      by (simp add: patch_line_Cons[OF False])
  qed
qed

text \<open>A text as its lines: each line but the last with the line terminator after it, and
  the last line.\<close>

fun with_terminators :: "(string \<times> char) list \<Rightarrow> string \<Rightarrow> string" where
  "with_terminators [] l = l"
| "with_terminators ((x, t) # segs) l = x @ t # with_terminators segs l"

lemma replace_terminator:
  assumes "is_line_terminator t"
  shows "replace_matches identifier template pre (t # rest)
           = t # replace_matches identifier template (pre @ [t]) rest"
proof -
  from assms have "t \<noteq> CHR ''i''" by (auto simp: is_line_terminator_def)
  then have "match_at identifier (t # rest) = None"
    by (simp add: match_at_def group1_at_def)
  then show ?thesis
    by (subst replace_matches.simps) (simp only: option.case list.case)
qed

lemma replace_lines:
  assumes lit: "no_space (identifier @ '':'')" and tag: "CHR ''$'' \<notin> set tag"
    and segs: "\<forall>(x, t) \<in> set segs. one_line x \<and> calm x \<and> is_line_terminator t"
    and l: "one_line l" "calm l"
  shows "replace_matches identifier (''$1'' @ tag) pre (with_terminators segs l)
           = with_terminators (map (\<lambda>(x, t). (patch_line identifier tag x, t)) segs)
               (patch_line identifier tag l)"
  using segs
proof (induction segs arbitrary: pre)
  case Nil
  have "line_end []" by (simp add: line_end_def)
  from replace_line[OF lit tag this l, of pre] show ?case
    by (simp only: append_Nil2 replace_matches_Nil with_terminators.simps list.map)
next
  case (Cons seg segs)
  obtain x t where seg: "seg = (x, t)" by (cases seg)
  with Cons.prems have x: "one_line x" "calm x" and t: "is_line_terminator t"
    and rest: "\<forall>(x, t) \<in> set segs. one_line x \<and> calm x \<and> is_line_terminator t"
    by auto
  from t have T: "line_end (t # with_terminators segs l)" by (simp add: line_end_def)
  have "replace_matches identifier (''$1'' @ tag) pre (with_terminators (seg # segs) l)
          = patch_line identifier tag x
            @ replace_matches identifier (''$1'' @ tag) (pre @ x) (t # with_terminators segs l)"
    unfolding seg using replace_line[OF lit tag T x, of pre] by simp
  also have "\<dots> = patch_line identifier tag x
            @ t # replace_matches identifier (''$1'' @ tag) ((pre @ x) @ [t]) (with_terminators segs l)"
    by (simp only: replace_terminator[OF t])
  also have "\<dots> = patch_line identifier tag x
            @ t # with_terminators (map (\<lambda>(x, t). (patch_line identifier tag x, t)) segs)
               (patch_line identifier tag l)"
    by (simp only: Cons.IH[OF rest])
  finally show ?case by (simp add: seg)
qed

lemma readFile_writeFile:
  assumes "writeFile fs p c = Inr fs'"
  shows "readFile fs' p = Inr c"
proof -
  from assms have "p \<noteq> []" by (auto simp: writeFile_def isDirectory_def split: if_splits)
  moreover from assms have "map_of fs' p = Some (FFile c)"
    by (auto simp: writeFile_def update_conv' split: if_splits)
  ultimately show ?thesis by (simp add: readFile_def)
qed

lemma updateYaml_written:
  assumes "readFile (disk s) filePath = Inr content"
    and "updateYaml filePath identifier newTag s = (Inr (), s')"
  shows "readFile (disk s') filePath = Inr (replace_image_tag identifier newTag content)"
proof -
  from assms obtain fs1 where w: "writeFile (disk s) filePath (replace_image_tag identifier newTag content) = Inr fs1"
    and s': "s' = s\<lparr>disk := fs1\<rparr>"
    by (auto simp: updateYaml_def split: sum.splits)
  from readFile_writeFile[OF w] s' show ?thesis by simp
qed

lemma updateYaml_lines:
  assumes "plain_identifier identifier" and "CHR ''$'' \<notin> set newTag"
    and "\<forall>(x, t) \<in> set segs. one_line x \<and> calm x \<and> is_line_terminator t"
    and "one_line l" and "calm l"
    and "readFile (disk s) filePath = Inr (with_terminators segs l)"
    and "updateYaml filePath identifier newTag s = (Inr (), s')"
  shows "readFile (disk s') filePath
           = Inr (with_terminators (map (\<lambda>(x, t). (patch_line identifier newTag x, t)) segs)
                    (patch_line identifier newTag l))"
proof -
  have "replace_image_tag identifier newTag (with_terminators segs l)
          = with_terminators (map (\<lambda>(x, t). (patch_line identifier newTag x, t)) segs)
              (patch_line identifier newTag l)"
    unfolding replace_image_tag_def
    by (rule replace_lines[OF plain_no_space[OF assms(1)] assms(2,3,4,5)])
  with updateYaml_written[OF assms(6,7)] show ?thesis by simp
qed

lemma patch_line_unmatched:
  "\<not> line_matches identifier x \<Longrightarrow> patch_line identifier tag x = x"
  by (simp add: patch_line_def)

lemma patch_line_matched:
  assumes "line_matches identifier x"
  shows "\<exists>a b. x = a @ identifier @ '':'' @ b \<and> \<not> str_includes b (identifier @ '':'')
              \<and> patch_line identifier tag x = a @ identifier @ '':'' @ tag"
proof -
  from line_matches_includes[OF assms] obtain m t where
    ls: "last_split (identifier @ '':'') x = Some (m, t)"
    using last_split_none[of "identifier @ '':''" x]
    by (cases "last_split (identifier @ '':'') x") auto
  from last_split_shape[OF ls] obtain a where a: "m = a @ identifier @ '':''" "x = a @ identifier @ '':'' @ t"
    by auto
  have "last_split (identifier @ '':'') t = None"
    by (rule last_split_last[OF _ ls]) simp
  then have "\<not> str_includes t (identifier @ '':'')" by (simp add: last_split_none)
  moreover have "patch_line identifier tag x = a @ identifier @ '':'' @ tag"
    using assms ls a(1) by (simp add: patch_line_def)
  ultimately show ?thesis using a(2) by blast
qed

lemma map_lines_unchanged:
  assumes "\<forall>(x, t) \<in> set segs. f x = x"
  shows "map (\<lambda>(x, t). (f x, t)) segs = segs"
  using assms by (induction segs) auto

text \<open>The pattern as the specification words it: a line with \<open>image:\<close> followed eventually
  by \<open>identifier:\<close>.\<close>

definition image_then_identifier :: "string \<Rightarrow> string \<Rightarrow> bool" where
  "image_then_identifier identifier l =
     (\<exists>r \<in> set (suffixes l). prefix ''image:'' r \<and> str_includes (drop 6 r) (identifier @ '':''))"

definition yaml_state :: "string \<Rightarrow> state" where
  "yaml_state content =
     \<lparr>registryUrl = ''http://reg.local'', authHeader = None, token = None, logged = [], sent = [],
      disk = [([''deploy.yaml''], FFile content)]\<rparr>"

definition patched :: "string \<Rightarrow> string \<Rightarrow> string \<Rightarrow> error + string" where
  "patched identifier newTag content =
     readFile (disk (snd (updateYaml [''deploy.yaml''] identifier newTag (yaml_state content)))) [''deploy.yaml'']"

section \<open>Claims\<close>

text \<open>
  C3, as the code has it. When the first response to \<open>request\<close> is a 401 whose
  \<open>WWW-Authenticate\<close> header is a Bearer challenge with a realm, a token is requested from
  the realm URL; when that request succeeds and its body carries a non-empty token, the
  \<open>authHeader\<close> of the client becomes \<open>Bearer token\<close> and the original request is sent
  exactly once more, with the Bearer header, and what that retry gives, response or
  failure, is the result of \<open>request\<close>: three requests are sent and none after the retry.
  Every later call of \<open>request\<close> sends its first request with the Bearer header.
\<close>

theorem request_bearer_upgrade:
  assumes first: "net env (sent s) (first_request s m e b h) = Inl err"
    and resp: "err_response err = Some r" "status r = 401"
    and chal: "map_of (resp_headers r) ''www-authenticate'' = Some ch"
      "prefix ''bearer'' (map to_lower ch)" "match_quoted ''realm'' ch = Some realm"
    and tok: "net env (sent s @ [first_request s m e b h])
                (token_request (authHeader s) (token_url realm ch)) = Inr tr"
      "data_token tr = Some t" "t \<noteq> []"
  shows "request env m e b h s =
           (net env (sent s @ [first_request s m e b h, token_request (authHeader s) (token_url realm ch)])
                (retry_request (first_request s m e b h) t),
            s\<lparr>logged := logged s @ [''Attempting Bearer token retrieval...''],
              sent := sent s @ [first_request s m e b h,
                                token_request (authHeader s) (token_url realm ch),
                                retry_request (first_request s m e b h) t],
              token := Some t,
              authHeader := Some (''Bearer '' @ t)\<rparr>)
       \<and> prefix realm (req_url (token_request (authHeader s) (token_url realm ch)))
       \<and> map_of (req_headers (retry_request (first_request s m e b h) t)) ''Authorization''
           = Some (HStr (''Bearer '' @ t))
       \<and> (\<forall>m' e' b' h'. \<exists>rest.
             sent (snd (request env m' e' b' h' (snd (request env m e b h s))))
               = sent (snd (request env m e b h s))
                 @ first_request (snd (request env m e b h s)) m' e' b' h' # rest
             \<and> map_of (req_headers (first_request (snd (request env m e b h s)) m' e' b' h'))
                  ''Authorization'' = Some (HStr (''Bearer '' @ t)))"
proof -
  let ?c = "first_request s m e b h"
  let ?tr = "token_request (authHeader s) (token_url realm ch)"
  let ?s' = "s\<lparr>logged := logged s @ [''Attempting Bearer token retrieval...''],
              sent := sent s @ [?c, ?tr, retry_request ?c t],
              token := Some t, authHeader := Some (''Bearer '' @ t)\<rparr>"
  have eq: "request env m e b h s = (net env (sent s @ [?c, ?tr]) (retry_request ?c t), ?s')"
    using assms
    by (auto simp: request_def axios_def Let_def bearer_challenge_def log_def)
  have url: "prefix realm (req_url ?tr)"
    by (simp add: token_request_def token_url_def)
  have hdr: "map_of (req_headers (retry_request ?c t)) ''Authorization'' = Some (HStr (''Bearer '' @ t))"
    by (simp add: retry_request_def update_conv)
  have nxt: "\<exists>rest. sent (snd (request env m' e' b' h' ?s')) = sent ?s' @ first_request ?s' m' e' b' h' # rest
        \<and> map_of (req_headers (first_request ?s' m' e' b' h')) ''Authorization'' = Some (HStr (''Bearer '' @ t))"
    for m' e' b' h'
  proof -
    have a: "\<exists>rest. sent (snd (request env m' e' b' h' ?s')) = sent ?s' @ first_request ?s' m' e' b' h' # rest"
      by (rule request_sends_first)
    have b: "map_of (req_headers (first_request ?s' m' e' b' h')) ''Authorization'' = Some (HStr (''Bearer '' @ t))"
      by (simp add: first_request_def with_auth_def update_conv)
    from a b show ?thesis by blast
  qed
  show ?thesis
    unfolding eq snd_conv using url hdr nxt by blast
qed

text \<open>The theorem at the challenging registry: the first call gets 401, the token service
  gives \<open>tok1\<close>, the retry is answered with 200.\<close>

theorem request_bearer_upgrade_witness:
  "request (demo_env\<lparr>net := challenge_net (Some ''tok1'')\<rparr>) ''GET'' ''/v2/'' None [] demo_state
     = (Inr ok_response,
        demo_state\<lparr>logged := [''Attempting Bearer token retrieval...''],
                   sent := [first_request demo_state ''GET'' ''/v2/'' None [],
                            token_request (Some ''Basic dTpw'') ''https://auth.local/token?service=registry&scope='',
                            retry_request (first_request demo_state ''GET'' ''/v2/'' None []) ''tok1''],
                   token := Some ''tok1'', authHeader := Some ''Bearer tok1''\<rparr>)"
proof -
  let ?E = "demo_env\<lparr>net := challenge_net (Some ''tok1'')\<rparr>"
  let ?r = "\<lparr>status = 401, resp_headers = [(''www-authenticate'', demo_challenge)],
             data_token = None, data_json = ''{}''\<rparr>"
  have h1: "net ?E (sent demo_state) (first_request demo_state ''GET'' ''/v2/'' None []) = Inl demo_401"
    by (simp add: challenge_net_def demo_state_def first_request_def with_auth_def)
  have h2: "err_response demo_401 = Some ?r" by (simp add: demo_401_def)
  have h3: "status ?r = 401" by simp
  have h4: "map_of (resp_headers ?r) ''www-authenticate'' = Some demo_challenge" by simp
  have h5: "prefix ''bearer'' (map to_lower demo_challenge)"
    by code_simp
  have h6: "match_quoted ''realm'' demo_challenge = Some ''https://auth.local/token''"
    by code_simp
  have tu: "token_url ''https://auth.local/token'' demo_challenge
              = ''https://auth.local/token?service=registry&scope=''"
    by code_simp
  have h7: "net ?E (sent demo_state @ [first_request demo_state ''GET'' ''/v2/'' None []])
              (token_request (authHeader demo_state) (token_url ''https://auth.local/token'' demo_challenge))
            = Inr (ok_response\<lparr>data_token := Some ''tok1''\<rparr>)"
    unfolding tu by (simp add: challenge_net_def token_request_def)
  have h8: "data_token (ok_response\<lparr>data_token := Some ''tok1''\<rparr>) = Some ''tok1''" by simp
  have h9: "''tok1'' \<noteq> []" by simp
  note eq = request_bearer_upgrade[OF h1 h2 h3 h4 h5 h6 h7 h8 h9, THEN conjunct1]
  from eq show ?thesis
    by (simp add: tu challenge_net_def retry_request_def first_request_def demo_state_def
          update_conv token_request_def with_auth_def)
qed

text \<open>
  C3 as the specification states it fails where the token service answers without a
  token: the first response is a 401 with a Bearer challenge and a realm, yet the
  \<open>authHeader\<close> stays as it was, the original request is not sent again (two requests: the
  original one and the one for the token) and the first 401 is the result.
\<close>

theorem request_upgrade_counterexample:
  "net (demo_env\<lparr>net := challenge_net None\<rparr>) (sent demo_state)
       (first_request demo_state ''GET'' ''/v2/'' None []) = Inl demo_401
   \<and> match_quoted ''realm'' demo_challenge = Some ''https://auth.local/token''
   \<and> request (demo_env\<lparr>net := challenge_net None\<rparr>) ''GET'' ''/v2/'' None [] demo_state
        = (Inl demo_401,
           demo_state\<lparr>logged := [''Attempting Bearer token retrieval...''],
                      sent := [first_request demo_state ''GET'' ''/v2/'' None [],
                               token_request (Some ''Basic dTpw'')
                                 ''https://auth.local/token?service=registry&scope='']\<rparr>)
   \<and> authHeader (snd (request (demo_env\<lparr>net := challenge_net None\<rparr>) ''GET'' ''/v2/'' None [] demo_state))
        = Some ''Basic dTpw''"
proof -
  let ?E = "demo_env\<lparr>net := challenge_net None\<rparr>"
  have h1: "net ?E (sent demo_state) (first_request demo_state ''GET'' ''/v2/'' None []) = Inl demo_401"
    by (simp add: challenge_net_def demo_state_def first_request_def with_auth_def)
  have h5: "prefix ''bearer'' (map to_lower demo_challenge)"
    by code_simp
  have h5': "demo_challenge \<noteq> []"
    by (simp add: demo_challenge_def)
  have h6: "match_quoted ''realm'' demo_challenge = Some ''https://auth.local/token''"
    by code_simp
  have tu: "token_url ''https://auth.local/token'' demo_challenge
              = ''https://auth.local/token?service=registry&scope=''"
    by code_simp
  have h7: "net ?E (sent demo_state @ [first_request demo_state ''GET'' ''/v2/'' None []])
              (token_request (authHeader demo_state) ''https://auth.local/token?service=registry&scope='')
            = Inr (ok_response\<lparr>data_token := None\<rparr>)"
    by (simp add: challenge_net_def token_request_def)
  have eq: "request ?E ''GET'' ''/v2/'' None [] demo_state
        = (Inl demo_401,
           demo_state\<lparr>logged := [''Attempting Bearer token retrieval...''],
                      sent := [first_request demo_state ''GET'' ''/v2/'' None [],
                               token_request (Some ''Basic dTpw'')
                                 ''https://auth.local/token?service=registry&scope='']\<rparr>)"
    using h1 h5 h5' h6 h7
    by (simp add: request_def axios_def Let_def bearer_challenge_def log_def tu demo_401_def)
       (simp add: demo_state_def)
  show ?thesis
    unfolding eq using h1 h6 by (simp add: demo_state_def)
qed




text \<open>
  C1. When \<open>pushTarball\<close> succeeds, the archive was extracted, its index named a config
  file and a list of layer files, all of them were read from the extraction directory, and
  the last request sent is the PUT of the manifest to \<open>/v2/repository/manifests/tag\<close>. Its
  body is the serialised manifest whose \<open>layers\<close> list, in the order of the index, the
  \<open>sha256:\<close> digests and the byte lengths of the layer files, and whose \<open>config\<close> has the
  digest and the length of the config file.
\<close>

theorem pushTarball_manifest_layers:
  assumes "pushTarball env tarPath repository tag s = (Inr u, s')"
  shows "\<exists>fs1 fs2 imageMeta configFilename layerFilenames cbuf lbufs payload.
           ensureDir (disk s) (tempDir_of env) = Inr fs1
         \<and> extract_archive env tarPath (tempDir_of env) fs1 = (Inr (), fs2)
         \<and> read_index env (tempDir_of env) fs2 = Inr imageMeta
         \<and> im_Config imageMeta = Some configFilename
         \<and> im_Layers imageMeta = Some layerFilenames
         \<and> readFile fs2 (path_join (tempDir_of env) configFilename) = Inr cbuf
         \<and> map (\<lambda>f. readFile fs2 (path_join (tempDir_of env) f)) layerFilenames = map Inr lbufs
         \<and> sent s' \<noteq> [] \<and> req_method (last (sent s')) = ''PUT''
         \<and> req_url (last (sent s')) = registryUrl s @ ''/v2/'' @ repository @ ''/manifests/'' @ tag
         \<and> req_data (last (sent s')) = Some (stringify_manifest env payload)
         \<and> map d_digest (m_layers payload) = map (\<lambda>b. ''sha256:'' @ sha256hex env b) lbufs
         \<and> map d_size (m_layers payload) = map length lbufs
         \<and> d_digest (m_config payload) = ''sha256:'' @ sha256hex env cbuf
         \<and> d_size (m_config payload) = length cbuf"
proof -
  from pushTarball_stages[OF assms]
  obtain fs1 fs2 imageMeta configFilename layerFilenames s2 s3 where
    st: "ensureDir (disk s) (tempDir_of env) = Inr fs1"
      "extract_archive env tarPath (tempDir_of env) fs1 = (Inr (), fs2)"
      "read_index env (tempDir_of env) fs2 = Inr imageMeta"
      "im_Config imageMeta = Some configFilename"
      "im_Layers imageMeta = Some layerFilenames"
    and s2: "disk s2 = fs2" "registryUrl s2 = registryUrl s"
    and pb: "pushBlobsAndManifest env repository tag (tempDir_of env)
                  configFilename layerFilenames s2 = (Inr (), s3)"
    and s': "s' = s3\<lparr>disk := remove (disk s3) (tempDir_of env)\<rparr>"
    by auto
  from pushBlobsAndManifest_effect[OF pb] s2
  obtain cbuf lbufs where
    bufs: "readFile fs2 (path_join (tempDir_of env) configFilename) = Inr cbuf"
      "map (\<lambda>f. readFile fs2 (path_join (tempDir_of env) f)) layerFilenames = map Inr lbufs"
    and put: "sent s3 \<noteq> []" "req_method (last (sent s3)) = ''PUT''"
      "req_url (last (sent s3)) = registryUrl s @ manifest_endpoint repository tag"
      "req_data (last (sent s3))
         = Some (stringify_manifest env (manifestPayload (blob_of env cbuf) (map (blob_of env) lbufs)))"
    by auto
  let ?payload = "manifestPayload (blob_of env cbuf) (map (blob_of env) lbufs)"
  have pl: "map d_digest (m_layers ?payload) = map (\<lambda>b. ''sha256:'' @ sha256hex env b) lbufs"
    "map d_size (m_layers ?payload) = map length lbufs"
    "d_digest (m_config ?payload) = ''sha256:'' @ sha256hex env cbuf"
    "d_size (m_config ?payload) = length cbuf"
    by (simp_all add: manifestPayload_def blob_of_def comp_def)
  from put s' have put': "sent s' \<noteq> []" "req_method (last (sent s')) = ''PUT''"
    "req_url (last (sent s')) = registryUrl s @ ''/v2/'' @ repository @ ''/manifests/'' @ tag"
    "req_data (last (sent s')) = Some (stringify_manifest env ?payload)"
    by (simp_all add: manifest_endpoint_def)
  from st bufs put' pl show ?thesis
    by blast
qed

text \<open>
  The theorem at an archive with the index, a config file and two layers, pushed to a
  registry that answers every request with 200: the push succeeds and the body of the
  manifest PUT (here the digests, config first) has the two layers in the order of the index.
\<close>

theorem pushTarball_manifest_layers_witness:
  "fst (pushTarball push_env ''/data/svc.tar'' ''ns/svc'' ''v1.2.3'' push_state) = Inr ()
   \<and> req_data (last (sent (snd (pushTarball push_env ''/data/svc.tar'' ''ns/svc'' ''v1.2.3'' push_state))))
       = Some ''sha256:cfgsha256:layer-onesha256:layer-two!''
   \<and> (\<exists>cbuf lbufs payload.
         req_data (last (sent (snd (pushTarball push_env ''/data/svc.tar'' ''ns/svc'' ''v1.2.3'' push_state))))
           = Some (stringify_manifest push_env payload)
         \<and> map d_digest (m_layers payload) = map (\<lambda>b. ''sha256:'' @ sha256hex push_env b) lbufs
         \<and> map d_size (m_layers payload) = map length lbufs
         \<and> d_digest (m_config payload) = ''sha256:'' @ sha256hex push_env cbuf
         \<and> d_size (m_config payload) = length cbuf)"
proof -
  let ?p = "pushTarball push_env ''/data/svc.tar'' ''ns/svc'' ''v1.2.3'' push_state"
  have ok: "fst ?p = Inr ()" by code_simp
  have body: "req_data (last (sent (snd ?p))) = Some ''sha256:cfgsha256:layer-onesha256:layer-two!''"
    by code_simp
  from ok have ev: "?p = (Inr (), snd ?p)"
    by (simp add: prod_eq_iff)
  from pushTarball_manifest_layers[OF ev] ok body show ?thesis
    by blast
qed

text \<open>
  C2, as the code has it. \<open>pushTarball\<close> removes the extraction directory as its last
  statement, so after a push that succeeded nothing at or below that directory is left.
  The directory of the git clone is never removed after it was made: when the handler
  reports success, it is still a directory on the disk.
\<close>

theorem temp_dirs_on_success:
  "(pushTarball env tarPath repository tag s = (Inr u, s') \<longrightarrow> gone (disk s') (tempDir_of env))
   \<and> (run_deploy env serviceName tag regUrl globalConfig tarPath' manifestPath s0
         = (Some (DeployComplete n True t), s1)
        \<longrightarrow> isDirectory (disk s1) (repoDir_of env serviceName))"
  using pushTarball_removes_tempDir run_deploy_success by blast

text \<open>
  The theorem at a run that pushes the example archive and patches the example
  repository.
\<close>

theorem temp_dirs_on_success_witness:
  "fst (pushTarball push_env ''/data/svc.tar'' ''ns/svc'' ''v1.2.3'' push_state) = Inr ()
   \<and> gone (disk (snd (pushTarball push_env ''/data/svc.tar'' ''ns/svc'' ''v1.2.3'' push_state)))
        (tempDir_of push_env)
   \<and> fst (run_deploy deploy_env ''svc'' ''v1.2.3'' ''reg.local/ns/svc'' demo_config
             (Some ''/data/svc.tar'') None push_state)
       = Some (DeployComplete ''svc'' True (Some ''v1.2.3''))
   \<and> isDirectory (disk (snd (run_deploy deploy_env ''svc'' ''v1.2.3'' ''reg.local/ns/svc'' demo_config
                                (Some ''/data/svc.tar'') None push_state)))
        (repoDir_of deploy_env ''svc'')"
proof -
  let ?p = "pushTarball push_env ''/data/svc.tar'' ''ns/svc'' ''v1.2.3'' push_state"
  let ?r = "run_deploy deploy_env ''svc'' ''v1.2.3'' ''reg.local/ns/svc'' demo_config
             (Some ''/data/svc.tar'') None push_state"
  have ok: "fst ?p = Inr ()" by code_simp
  then have ev: "?p = (Inr (), snd ?p)" by (simp add: prod_eq_iff)
  have rep: "fst ?r = Some (DeployComplete ''svc'' True (Some ''v1.2.3''))" by code_simp
  then have er: "?r = (Some (DeployComplete ''svc'' True (Some ''v1.2.3'')), snd ?r)"
    by (simp add: prod_eq_iff)
  have "gone (disk (snd ?p)) (tempDir_of push_env)"
    by (rule temp_dirs_on_success[THEN conjunct1, rule_format, OF ev])
  moreover have "isDirectory (disk (snd ?r)) (repoDir_of deploy_env ''svc'')"
    by (rule temp_dirs_on_success[THEN conjunct2, rule_format, OF er])
  ultimately have "gone (disk (snd ?p)) (tempDir_of push_env)
    \<and> isDirectory (disk (snd ?r)) (repoDir_of deploy_env ''svc'')"
    by simp
  with ok rep show ?thesis by simp
qed

text \<open>
  C2 as the specification states it fails on both directories. A run that succeeds
  reports \<open>success\<close> while the directory of the clone, with the patched manifest in it, is
  still on the disk; a run whose archive has no \<open>manifest.json\<close> reports the failure while
  the extraction directory is still on the disk.
\<close>

theorem temp_dirs_counterexample:
  "fst (run_deploy deploy_env ''svc'' ''v1.2.3'' ''reg.local/ns/svc'' demo_config
          (Some ''/data/svc.tar'') None push_state)
     = Some (DeployComplete ''svc'' True (Some ''v1.2.3''))
   \<and> isDirectory (disk (snd (run_deploy deploy_env ''svc'' ''v1.2.3'' ''reg.local/ns/svc'' demo_config
                                (Some ''/data/svc.tar'') None push_state)))
        (repoDir_of deploy_env ''svc'')
   \<and> map_of (disk (snd (run_deploy deploy_env ''svc'' ''v1.2.3'' ''reg.local/ns/svc'' demo_config
                           (Some ''/data/svc.tar'') None push_state)))
        [''tmp'', ''repo_svc_18'', ''k8s'', ''deploy.yaml'']
       = Some (FFile ''image: reg.local/ns/svc:v1.2.3'')
   \<and> fst (run_deploy demo_env ''svc'' ''v1.2.3'' ''reg.local/ns/svc'' demo_config
             (Some ''/data/svc.tar'') None push_state)
       = Some (DeployComplete ''svc'' False None)
   \<and> isDirectory (disk (snd (run_deploy demo_env ''svc'' ''v1.2.3'' ''reg.local/ns/svc'' demo_config
                                (Some ''/data/svc.tar'') None push_state)))
        (tempDir_of demo_env)"
  by code_simp

text \<open>
  C7. The file is read and its digest computed; the outcome of the HEAD request for the
  digest decides. When it resolves, \<open>pushBlob\<close> returns the digest and the size and every
  request it sent is neither a POST nor a PUT. When it is rejected with a response whose
  status is not 404, the warning is logged and \<open>pushBlob\<close> goes on with the upload: the
  next request sent is the POST to \<open>/v2/repository/blobs/uploads/\<close>, and when that resolves
  with a \<open>location\<close> header the PUT of the bytes follows it.
\<close>

theorem pushBlob_existence_check:
  assumes buf: "readFile (disk s) filePath = Inr buf"
    and head: "request env ''HEAD'' (head_endpoint repository (blob_digest (blob_of env buf))) None []
                 (log (checking_note (blob_digest (blob_of env buf))) s) = (r1, s1)"
  shows "(\<forall>resp. r1 = Inr resp \<longrightarrow>
            fst (pushBlob env repository filePath s) = Inr (blob_of env buf)
            \<and> (\<forall>rq \<in> set (drop (length (sent s)) (sent (snd (pushBlob env repository filePath s)))).
                  req_method rq \<noteq> ''POST'' \<and> req_method rq \<noteq> ''PUT''))
       \<and> (\<forall>err resp0. r1 = Inl err \<and> err_response err = Some resp0 \<and> status resp0 \<noteq> 404 \<longrightarrow>
            pushBlob env repository filePath s
              = uploadBlob env repository (blob_digest (blob_of env buf)) buf
                  (log (''Warning checking blob: '' @ err_message err) s1)
            \<and> (\<exists>l1 l2. logged (snd (pushBlob env repository filePath s))
                          = l1 @ (''Warning checking blob: '' @ err_message err) # l2)
            \<and> (\<exists>rest. sent (snd (pushBlob env repository filePath s))
                         = sent s1 @ first_request s1 ''POST'' (post_endpoint repository) None [] # rest)
            \<and> (\<forall>initResp s2 loc.
                  request env ''POST'' (post_endpoint repository) None []
                    (log (uploading_note env (blob_digest (blob_of env buf)) buf)
                       (log (''Warning checking blob: '' @ err_message err) s1)) = (Inr initResp, s2)
                  \<and> map_of (resp_headers initResp) ''location'' = Some loc
                  \<longrightarrow> sent (snd (pushBlob env repository filePath s))
                        = sent s2 @ [upload_request s2 loc (blob_digest (blob_of env buf)) buf]))"
proof (intro conjI allI impI)
  fix resp
  assume ok: "r1 = Inr resp"
  note eq = pushBlob_unfold[OF buf head]
  from eq ok show "fst (pushBlob env repository filePath s) = Inr (blob_of env buf)"
    by simp
  from eq ok have se: "sent (snd (pushBlob env repository filePath s)) = sent s1"
    by simp
  from head have s1: "s1 = snd (request env ''HEAD'' (head_endpoint repository (blob_digest (blob_of env buf)))
                                  None [] (log (checking_note (blob_digest (blob_of env buf))) s))"
    by simp
  show "\<forall>rq \<in> set (drop (length (sent s)) (sent (snd (pushBlob env repository filePath s)))).
          req_method rq \<noteq> ''POST'' \<and> req_method rq \<noteq> ''PUT''"
    unfolding se s1
    using request_methods[of "log (checking_note (blob_digest (blob_of env buf))) s" env "''HEAD''"
            "head_endpoint repository (blob_digest (blob_of env buf))" None "[]"]
    by auto
next
  fix err resp0
  assume f: "r1 = Inl err \<and> err_response err = Some resp0 \<and> status resp0 \<noteq> 404"
  let ?w = "log (''Warning checking blob: '' @ err_message err) s1"
  let ?dig = "blob_digest (blob_of env buf)"
  from f have w: "warn_check err s1 = ?w"
    by (simp add: warn_check_def)
  from pushBlob_unfold[OF buf head] f w
  show eq: "pushBlob env repository filePath s = uploadBlob env repository ?dig buf ?w"
    by simp
  from uploadBlob_logged[of env repository ?dig buf ?w]
  show "\<exists>l1 l2. logged (snd (pushBlob env repository filePath s))
                          = l1 @ (''Warning checking blob: '' @ err_message err) # l2"
    unfolding eq by auto
  have fr: "first_request ?w ''POST'' (post_endpoint repository) None []
          = first_request s1 ''POST'' (post_endpoint repository) None []"
    by (simp add: first_request_def)
  from uploadBlob_sends_post[of env repository ?dig buf ?w]
  show "\<exists>rest. sent (snd (pushBlob env repository filePath s))
                         = sent s1 @ first_request s1 ''POST'' (post_endpoint repository) None [] # rest"
    unfolding eq fr by simp
  fix initResp s2 loc
  assume "request env ''POST'' (post_endpoint repository) None []
                    (log (uploading_note env ?dig buf) ?w) = (Inr initResp, s2)
                  \<and> map_of (resp_headers initResp) ''location'' = Some loc"
  then show "sent (snd (pushBlob env repository filePath s))
                        = sent s2 @ [upload_request s2 loc ?dig buf]"
    unfolding eq using uploadBlob_then_put by blast
qed

text \<open>
  The theorem at a registry that has the blob (one HEAD request is sent), and at a
  registry that answers the HEAD with 500, the POST with a location and the PUT with 200.
\<close>

theorem pushBlob_existence_check_witness:
  "fst (pushBlob demo_env ''ns/svc'' [''layer.tar''] blob_state) = Inr (blob_of demo_env ''abc'')
   \<and> map req_method (sent (snd (pushBlob demo_env ''ns/svc'' [''layer.tar''] blob_state))) = [''HEAD'']
   \<and> map req_method (sent (snd (pushBlob (demo_env\<lparr>net := upload_net\<rparr>) ''ns/svc'' [''layer.tar''] blob_state)))
       = [''HEAD'', ''POST'', ''PUT'']
   \<and> (\<exists>l1 l2. logged (snd (pushBlob (demo_env\<lparr>net := upload_net\<rparr>) ''ns/svc'' [''layer.tar''] blob_state))
         = l1 @ ''Warning checking blob: Request failed with status code 500'' # l2)"
proof -
  let ?E = "demo_env\<lparr>net := upload_net\<rparr>"
  let ?dig = "blob_digest (blob_of demo_env ''abc'')"
  have buf: "readFile (disk blob_state) [''layer.tar''] = Inr ''abc''"
    by code_simp
  let ?h1 = "request demo_env ''HEAD'' (head_endpoint ''ns/svc'' ?dig) None [] (log (checking_note ?dig) blob_state)"
  have h1: "?h1 = (fst ?h1, snd ?h1)" by simp
  have r1: "fst ?h1 = Inr ok_response" by code_simp
  from pushBlob_existence_check[OF buf h1] r1
  have a: "fst (pushBlob demo_env ''ns/svc'' [''layer.tar''] blob_state) = Inr (blob_of demo_env ''abc'')"
    by blast
  have d: "blob_digest (blob_of ?E ''abc'') = ?dig"
    by (simp add: blob_of_def demo_env_def)
  let ?h2 = "request ?E ''HEAD'' (head_endpoint ''ns/svc'' (blob_digest (blob_of ?E ''abc''))) None []
               (log (checking_note (blob_digest (blob_of ?E ''abc''))) blob_state)"
  have h2: "?h2 = (fst ?h2, snd ?h2)" by simp
  have r2: "fst ?h2 = Inl (AxiosError (Some (ok_response\<lparr>status := 500\<rparr>)) ''Request failed with status code 500'')"
    by code_simp
  have e2: "err_response (AxiosError (Some (ok_response\<lparr>status := 500\<rparr>)) ''Request failed with status code 500'')
              = Some (ok_response\<lparr>status := 500\<rparr>)"
    "status (ok_response\<lparr>status := 500\<rparr>) \<noteq> 404"
    by simp_all
  from pushBlob_existence_check[OF buf h2] r2 e2
  have b: "\<exists>l1 l2. logged (snd (pushBlob ?E ''ns/svc'' [''layer.tar''] blob_state))
         = l1 @ (''Warning checking blob: '' @ err_message (AxiosError (Some (ok_response\<lparr>status := 500\<rparr>)) ''Request failed with status code 500'')) # l2"
    by blast
  have m1: "map req_method (sent (snd (pushBlob demo_env ''ns/svc'' [''layer.tar''] blob_state))) = [''HEAD'']"
    by code_simp
  have m2: "map req_method (sent (snd (pushBlob ?E ''ns/svc'' [''layer.tar''] blob_state)))
       = [''HEAD'', ''POST'', ''PUT'']"
    by code_simp
  from a b m1 m2 show ?thesis by simp
qed



text \<open>
  C5, as the code has it. With a path hint that resolves to a directory of the
  repository, the directory's tree is searched first: a match there is the target, it is
  the first file in the order of \<open>getAllFiles\<close> with a \<open>.yaml\<close> or \<open>.yml\<close> name whose content
  includes the identifier, and it lies below the hinted directory, reached through no
  directory whose name includes \<open>.git\<close>. When the directory's tree has no match, the whole
  repository is searched, and the run fails with \<open>YAML not found\<close> only when that search
  finds nothing either.
\<close>

theorem directory_hint_search:
  assumes hint: "manifestPath = Some mp" "mp \<noteq> []" "\<exists>c \<in> set mp. \<not> is_space c"
    and dir: "isDirectory (disk s) (path_join repoDir mp)"
  shows "(\<forall>t. findYamlFile (disk s) (path_join repoDir mp) (identifier_of repoName) repoDir = Inr (Some t)
              \<and> t \<noteq> [] \<longrightarrow>
            fst (locate_manifest repoDir manifestPath repoName serviceName s) = Inr t
            \<and> (\<exists>pre f post. getAllFiles (disk s) (path_join repoDir mp) [] = pre @ f # post
                  \<and> t = path_relative repoDir f
                  \<and> yaml_match (disk s) (identifier_of repoName) f
                  \<and> (\<forall>g \<in> set pre. \<not> yaml_match (disk s) (identifier_of repoName) g)
                  \<and> below_skipping_git (path_join repoDir mp) f))
       \<and> (findYamlFile (disk s) (path_join repoDir mp) (identifier_of repoName) repoDir = Inr None \<longrightarrow>
            fst (locate_manifest repoDir manifestPath repoName serviceName s)
              = (case findYamlFile (disk s) repoDir (identifier_of repoName) repoDir of
                   Inl err \<Rightarrow> Inl err
                 | Inr None \<Rightarrow> Inl (Error ''YAML not found'')
                 | Inr (Some t) \<Rightarrow> if t \<noteq> [] then Inr t else Inl (Error ''YAML not found'')))"
proof (intro conjI allI impI)
  fix t
  assume a: "findYamlFile (disk s) (path_join repoDir mp) (identifier_of repoName) repoDir = Inr (Some t)
              \<and> t \<noteq> []"
  with hint dir isDirectory_exists[OF dir]
  show "fst (locate_manifest repoDir manifestPath repoName serviceName s) = Inr t"
    by (simp add: locate_manifest_def hinted_target_def lift_disk_def truthy_def or_empty_def)
  from a findYamlFile_within
  show "\<exists>pre f post. getAllFiles (disk s) (path_join repoDir mp) [] = pre @ f # post
                  \<and> t = path_relative repoDir f
                  \<and> yaml_match (disk s) (identifier_of repoName) f
                  \<and> (\<forall>g \<in> set pre. \<not> yaml_match (disk s) (identifier_of repoName) g)
                  \<and> below_skipping_git (path_join repoDir mp) f"
    by blast
next
  assume "findYamlFile (disk s) (path_join repoDir mp) (identifier_of repoName) repoDir = Inr None"
  with hint dir isDirectory_exists[OF dir]
  show "fst (locate_manifest repoDir manifestPath repoName serviceName s)
              = (case findYamlFile (disk s) repoDir (identifier_of repoName) repoDir of
                   Inl err \<Rightarrow> Inl err
                 | Inr None \<Rightarrow> Inl (Error ''YAML not found'')
                 | Inr (Some t) \<Rightarrow> if t \<noteq> [] then Inr t else Inl (Error ''YAML not found''))"
    by (simp add: locate_manifest_def hinted_target_def lift_disk_def truthy_def or_empty_def
             split: sum.splits option.splits)
qed

text \<open>
  The theorem at a repository with a manifest in \<open>k8s\<close> and none for the service in
  \<open>charts\<close>, for each of the two directories as the hint.
\<close>

theorem directory_hint_search_witness:
  "fst (locate_manifest [''repo''] (Some ''k8s'') ''ns/svc'' ''svc'' repo_state) = Inr ''k8s/deploy.yaml''
   \<and> findYamlFile (disk repo_state) (path_join [''repo''] ''charts'') (identifier_of ''ns/svc'') [''repo'']
       = Inr None
   \<and> fst (locate_manifest [''repo''] (Some ''charts'') ''ns/svc'' ''svc'' repo_state)
       = (case findYamlFile (disk repo_state) [''repo''] (identifier_of ''ns/svc'') [''repo''] of
            Inl err \<Rightarrow> Inl err
          | Inr None \<Rightarrow> Inl (Error ''YAML not found'')
          | Inr (Some t) \<Rightarrow> if t \<noteq> [] then Inr t else Inl (Error ''YAML not found''))"
proof -
  have sp: "\<exists>c \<in> set ''k8s''. \<not> is_space c" "\<exists>c \<in> set ''charts''. \<not> is_space c"
    by code_simp+
  have d1: "isDirectory (disk repo_state) (path_join [''repo''] ''k8s'')"
    and d2: "isDirectory (disk repo_state) (path_join [''repo''] ''charts'')"
    by code_simp+
  have f1: "findYamlFile (disk repo_state) (path_join [''repo''] ''k8s'') (identifier_of ''ns/svc'') [''repo'']
              = Inr (Some ''k8s/deploy.yaml'') \<and> ''k8s/deploy.yaml'' \<noteq> []"
    by code_simp
  have f2: "findYamlFile (disk repo_state) (path_join [''repo''] ''charts'') (identifier_of ''ns/svc'') [''repo'']
              = Inr None"
    by code_simp
  from directory_hint_search[OF refl _ sp(1) d1, where repoName="''ns/svc''" and serviceName="''svc''"] f1
  have a: "fst (locate_manifest [''repo''] (Some ''k8s'') ''ns/svc'' ''svc'' repo_state) = Inr ''k8s/deploy.yaml''"
    by blast
  from directory_hint_search[OF refl _ sp(2) d2, where repoName="''ns/svc''" and serviceName="''svc''"] f2
  have b: "fst (locate_manifest [''repo''] (Some ''charts'') ''ns/svc'' ''svc'' repo_state)
       = (case findYamlFile (disk repo_state) [''repo''] (identifier_of ''ns/svc'') [''repo''] of
            Inl err \<Rightarrow> Inl err
          | Inr None \<Rightarrow> Inl (Error ''YAML not found'')
          | Inr (Some t) \<Rightarrow> if t \<noteq> [] then Inr t else Inl (Error ''YAML not found''))"
    by blast
  from a f2 b show ?thesis by blast
qed

text \<open>
  C5 as the specification states it fails in that repository: the hint \<open>charts\<close> is a
  directory whose tree has no match, and the locator does not fail but chooses
  \<open>k8s/deploy.yaml\<close>, a file outside the hinted directory.
\<close>

theorem directory_hint_counterexample:
  "isDirectory (disk repo_state) (path_join [''repo''] ''charts'')
   \<and> findYamlFile (disk repo_state) (path_join [''repo''] ''charts'') (identifier_of ''ns/svc'') [''repo'']
       = Inr None
   \<and> fst (locate_manifest [''repo''] (Some ''charts'') ''ns/svc'' ''svc'' repo_state) = Inr ''k8s/deploy.yaml''
   \<and> \<not> prefix (path_join [''repo''] ''charts'') (path_join [''repo''] ''k8s/deploy.yaml'')"
  by code_simp

text \<open>
  C8, as the code has it. The extraction has no test of the entry's path: when it
  succeeds, every entry of the archive is on the disk, a directory entry as a directory
  and any other entry as a file at the path joined from the extraction directory and the
  entry's name; the file has the content of the last entry written to that path.
\<close>

theorem extraction_writes_every_entry:
  assumes "extract_entries tempDir es fs = (Inr u, fs')"
  shows "(\<forall>e \<in> set es.
            (header_type e = ''directory'' \<longrightarrow> isDirectory fs' (path_join tempDir (header_name e)))
          \<and> (header_type e \<noteq> ''directory'' \<longrightarrow> isFile fs' (path_join tempDir (header_name e))))
       \<and> (\<forall>pre e post.
            es = pre @ e # post \<and> header_type e \<noteq> ''directory''
            \<and> (\<forall>e' \<in> set post. path_join tempDir (header_name e') \<noteq> path_join tempDir (header_name e))
            \<longrightarrow> map_of fs' (path_join tempDir (header_name e)) = Some (FFile (contents e)))"
  using assms
proof (induction es arbitrary: fs)
  case Nil
  then show ?case by simp
next
  case (Cons e es)
  from Cons.prems obtain fs1 where e1: "extract_entry tempDir e fs = Inr fs1"
    and rest: "extract_entries tempDir es fs1 = (Inr u, fs')"
    by (auto split: sum.splits)
  note ih = Cons.IH[OF rest]
  note w = extract_entry_written[OF e1]
  have first: "(header_type e = ''directory'' \<longrightarrow> isDirectory fs' (path_join tempDir (header_name e)))
          \<and> (header_type e \<noteq> ''directory'' \<longrightarrow> isFile fs' (path_join tempDir (header_name e)))"
    using w extract_entries_keeps[OF rest, of "path_join tempDir (header_name e)"]
    by (auto simp: isFile_def)
  have last_writer: "map_of fs' (path_join tempDir (header_name x)) = Some (FFile (contents x))"
    if "e # es = pre @ x # post" "header_type x \<noteq> ''directory''"
      "\<forall>e' \<in> set post. path_join tempDir (header_name e') \<noteq> path_join tempDir (header_name x)"
    for pre x post
  proof (cases pre)
    case Nil
    with that have x: "x = e" "post = es" by simp_all
    with w that(2) have "map_of fs1 (path_join tempDir (header_name e)) = Some (FFile (contents e))"
      by simp
    with extract_entries_keeps[OF rest, of "path_join tempDir (header_name e)" "FFile (contents e)"]
      that(3) x
    show ?thesis by auto
  next
    case (Cons p pre')
    with that(1) have "es = pre' @ x # post" by simp
    with ih that(2,3) show ?thesis by blast
  qed
  show ?case
  proof (rule conjI)
    show "\<forall>x \<in> set (e # es).
            (header_type x = ''directory'' \<longrightarrow> isDirectory fs' (path_join tempDir (header_name x)))
          \<and> (header_type x \<noteq> ''directory'' \<longrightarrow> isFile fs' (path_join tempDir (header_name x)))"
      using first ih by auto
  next
    show "\<forall>pre x post.
            e # es = pre @ x # post \<and> header_type x \<noteq> ''directory''
            \<and> (\<forall>e' \<in> set post. path_join tempDir (header_name e') \<noteq> path_join tempDir (header_name x))
            \<longrightarrow> map_of fs' (path_join tempDir (header_name x)) = Some (FFile (contents x))"
      using last_writer by blast
  qed
qed

text \<open>
  The theorem at an archive with a \<open>.git\<close> directory, a file in it and a layer.
\<close>

theorem extraction_writes_every_entry_witness:
  "fst (extract_entries [''tmp'', ''sth-deploy-17''] git_entries []) = Inr ()
   \<and> isDirectory (snd (extract_entries [''tmp'', ''sth-deploy-17''] git_entries []))
        (path_join [''tmp'', ''sth-deploy-17''] ''.git'')
   \<and> isFile (snd (extract_entries [''tmp'', ''sth-deploy-17''] git_entries []))
        (path_join [''tmp'', ''sth-deploy-17''] ''layer.tar'')"
proof -
  let ?x = "extract_entries [''tmp'', ''sth-deploy-17''] git_entries []"
  have ok: "fst ?x = Inr ()" by code_simp
  then have ev: "?x = (Inr (), snd ?x)" by (simp add: prod_eq_iff)
  note th = extraction_writes_every_entry[OF ev, THEN conjunct1, rule_format]
  have "isDirectory (snd ?x) (path_join [''tmp'', ''sth-deploy-17''] ''.git'')"
    using th[of "\<lparr>header_name = ''.git'', header_type = ''directory'', contents = []\<rparr>"]
    by (simp add: git_entries_def)
  moreover have "isFile (snd ?x) (path_join [''tmp'', ''sth-deploy-17''] ''layer.tar'')"
    using th[of "\<lparr>header_name = ''layer.tar'', header_type = ''file'', contents = ''abc''\<rparr>"]
    by (simp add: git_entries_def)
  ultimately show ?thesis using ok by simp
qed

text \<open>
  C8 as the specification states it fails for that archive: the entry \<open>.git/config\<close> has
  \<open>.git\<close> in its path, and after the extraction the file is in the extraction directory
  with the entry's content, inside the directory \<open>.git\<close> made for the entry before it.
\<close>

theorem extraction_skips_git_counterexample:
  "str_includes ''.git/config'' ''.git''
   \<and> fst (extract_entries [''tmp'', ''sth-deploy-17''] git_entries []) = Inr ()
   \<and> map_of (snd (extract_entries [''tmp'', ''sth-deploy-17''] git_entries []))
        [''tmp'', ''sth-deploy-17'', ''.git'', ''config''] = Some (FFile ''[core]'')
   \<and> isDirectory (snd (extract_entries [''tmp'', ''sth-deploy-17''] git_entries []))
        [''tmp'', ''sth-deploy-17'', ''.git'']"
  by code_simp

text \<open>
  C4, as the code has it. Take an identifier of letters, digits, \<open>-\<close> and \<open>_\<close>, a new tag
  without \<open>$\<close>, and a file (of code units below 256) in which no line has \<open>image:\<close> followed
  by white space only up to its end. A line matches when it has \<open>image:\<close>, then at least one
  white space character, then eventually \<open>identifier:\<close>. When \<open>updateYaml\<close> succeeds, the
  file holds the same lines with the same line terminators, each line patched: a line that
  does not match is as it was; in a line that matches, the text after its last
  \<open>identifier:\<close> is the new tag and everything up to that colon is as it was. When no line
  matches, the file content is as it was.
\<close>

theorem updateYaml_patches_lines:
  assumes "plain_identifier identifier" and "CHR ''$'' \<notin> set newTag"
    and "\<forall>(x, t) \<in> set segs. one_line x \<and> calm x \<and> is_line_terminator t"
    and "one_line l" and "calm l"
    and "readFile (disk s) filePath = Inr (with_terminators segs l)"
    and "updateYaml filePath identifier newTag s = (Inr (), s')"
  shows "readFile (disk s') filePath
           = Inr (with_terminators (map (\<lambda>(x, t). (patch_line identifier newTag x, t)) segs)
                    (patch_line identifier newTag l))
       \<and> (\<forall>x. \<not> line_matches identifier x \<longrightarrow> patch_line identifier newTag x = x)
       \<and> (\<forall>x. line_matches identifier x \<longrightarrow>
              (\<exists>a b. x = a @ identifier @ '':'' @ b \<and> \<not> str_includes b (identifier @ '':'')
                    \<and> patch_line identifier newTag x = a @ identifier @ '':'' @ newTag))
       \<and> ((\<forall>(x, t) \<in> set segs. \<not> line_matches identifier x) \<and> \<not> line_matches identifier l
            \<longrightarrow> readFile (disk s') filePath = Inr (with_terminators segs l))"
proof -
  note w = updateYaml_lines[OF assms]
  have "readFile (disk s') filePath = Inr (with_terminators segs l)"
    if "\<forall>(x, t) \<in> set segs. \<not> line_matches identifier x" "\<not> line_matches identifier l"
  proof -
    from that(1) have "\<forall>(x, t) \<in> set segs. patch_line identifier newTag x = x"
      by (auto simp: patch_line_unmatched)
    from map_lines_unchanged[OF this] that(2) w show ?thesis
      by (simp add: patch_line_unmatched)
  qed
  moreover have "\<forall>x. \<not> line_matches identifier x \<longrightarrow> patch_line identifier newTag x = x"
    by (simp add: patch_line_unmatched)
  moreover have "\<forall>x. line_matches identifier x \<longrightarrow>
              (\<exists>a b. x = a @ identifier @ '':'' @ b \<and> \<not> str_includes b (identifier @ '':'')
                    \<and> patch_line identifier newTag x = a @ identifier @ '':'' @ newTag)"
    using patch_line_matched by blast
  ultimately show ?thesis using w by blast
qed

text \<open>The theorem at a file of three lines, the second of which matches.\<close>

theorem updateYaml_patches_lines_witness:
  "patched ''svc'' ''v2'' (''kind: Deployment'' @ [CHR 0x0A] @ ''  image: reg.local/ns/svc:v1.0.0'' @ [CHR 0x0A] @ ''  name: svc'')
     = Inr (''kind: Deployment'' @ [CHR 0x0A] @ ''  image: reg.local/ns/svc:v2'' @ [CHR 0x0A] @ ''  name: svc'')"
proof -
  let ?c = "''kind: Deployment'' @ [CHR 0x0A] @ ''  image: reg.local/ns/svc:v1.0.0'' @ [CHR 0x0A] @ ''  name: svc''"
  let ?segs = "[(''kind: Deployment'', CHR 0x0A), (''  image: reg.local/ns/svc:v1.0.0'', CHR 0x0A)]"
  let ?X = "updateYaml [''deploy.yaml''] ''svc'' ''v2'' (yaml_state ?c)"
  have ok: "fst ?X = Inr ()" by code_simp
  then have ev: "?X = (Inr (), snd ?X)" by (simp add: prod_eq_iff)
  have p: "plain_identifier ''svc''" by code_simp
  have t: "CHR ''$'' \<notin> set ''v2''" by simp
  have segs: "\<forall>(x, t) \<in> set ?segs. one_line x \<and> calm x \<and> is_line_terminator t" by code_simp
  have l: "one_line ''  name: svc''" "calm ''  name: svc''" by code_simp+
  have r: "readFile (disk (yaml_state ?c)) [''deploy.yaml''] = Inr (with_terminators ?segs ''  name: svc'')"
    by code_simp
  have out: "with_terminators (map (\<lambda>(x, t). (patch_line ''svc'' ''v2'' x, t)) ?segs) (patch_line ''svc'' ''v2'' ''  name: svc'')
       = ''kind: Deployment'' @ [CHR 0x0A] @ ''  image: reg.local/ns/svc:v2'' @ [CHR 0x0A] @ ''  name: svc''"
    by code_simp
  from updateYaml_patches_lines[OF p t segs l r ev, THEN conjunct1] show ?thesis
    unfolding patched_def out .
qed

text \<open>
  C4 as the specification states it fails twice. A line with \<open>image:\<close> followed eventually
  by \<open>svc:\<close>, but with no white space after \<open>image:\<close>, is the only such line of its file
  and is not rewritten. And in a file of the two lines \<open>image:\<close> and \<open>  svc:v1\<close>, neither of
  which has \<open>image:\<close> followed by \<open>svc:\<close>, the second line is rewritten: the white space of
  the pattern runs over the line terminator.
\<close>

theorem updateYaml_lines_counterexample:
  "image_then_identifier ''svc'' ''image:reg.local/ns/svc:v1''
   \<and> patched ''svc'' ''v2'' ''image:reg.local/ns/svc:v1'' = Inr ''image:reg.local/ns/svc:v1''
   \<and> \<not> image_then_identifier ''svc'' ''image:''
   \<and> \<not> image_then_identifier ''svc'' ''  svc:v1''
   \<and> patched ''svc'' ''v2'' (''image:'' @ [CHR 0x0A] @ ''  svc:v1'') = Inr (''image:'' @ [CHR 0x0A] @ ''  svc:v2'')"
  by code_simp

text \<open>
  C6, as the code has it. The pattern has the \<open>g\<close> flag, so every matching line is
  rewritten, the first and the later ones alike: under the conditions of C4 on the
  identifier, the tag and the file, when \<open>updateYaml\<close> succeeds the file holds each line
  patched, and every line of the file that matches ends in \<open>identifier:newTag\<close> there.
\<close>

theorem updateYaml_rewrites_every_match:
  assumes "plain_identifier identifier" and "CHR ''$'' \<notin> set newTag"
    and "\<forall>(x, t) \<in> set segs. one_line x \<and> calm x \<and> is_line_terminator t"
    and "one_line l" and "calm l"
    and "readFile (disk s) filePath = Inr (with_terminators segs l)"
    and "updateYaml filePath identifier newTag s = (Inr (), s')"
  shows "readFile (disk s') filePath
           = Inr (with_terminators (map (\<lambda>(x, t). (patch_line identifier newTag x, t)) segs)
                    (patch_line identifier newTag l))
       \<and> (\<forall>x \<in> set (map fst segs @ [l]). line_matches identifier x \<longrightarrow>
              suffix (identifier @ '':'' @ newTag) (patch_line identifier newTag x))"
proof -
  have "suffix (identifier @ '':'' @ newTag) (patch_line identifier newTag x)"
    if "line_matches identifier x" for x
    using patch_line_matched[OF that, of newTag] by (auto simp: suffix_def)
  with updateYaml_lines[OF assms] show ?thesis by blast
qed

text \<open>The theorem at a file of three lines, the first and the third of which match.\<close>

theorem updateYaml_rewrites_every_match_witness:
  "patched ''svc'' ''v2'' (''image: a/svc:v1'' @ [CHR 0x0A] @ ''# next'' @ [CHR 0x0A] @ ''image: b/svc:v1'')
     = Inr (with_terminators [(patch_line ''svc'' ''v2'' ''image: a/svc:v1'', CHR 0x0A), (''# next'', CHR 0x0A)]
              (patch_line ''svc'' ''v2'' ''image: b/svc:v1''))
   \<and> suffix ''svc:v2'' (patch_line ''svc'' ''v2'' ''image: a/svc:v1'')
   \<and> suffix ''svc:v2'' (patch_line ''svc'' ''v2'' ''image: b/svc:v1'')"
proof -
  let ?c = "''image: a/svc:v1'' @ [CHR 0x0A] @ ''# next'' @ [CHR 0x0A] @ ''image: b/svc:v1''"
  let ?segs = "[(''image: a/svc:v1'', CHR 0x0A), (''# next'', CHR 0x0A)]"
  let ?X = "updateYaml [''deploy.yaml''] ''svc'' ''v2'' (yaml_state ?c)"
  have ok: "fst ?X = Inr ()" by code_simp
  then have ev: "?X = (Inr (), snd ?X)" by (simp add: prod_eq_iff)
  have p: "plain_identifier ''svc''" by code_simp
  have t: "CHR ''$'' \<notin> set ''v2''" by simp
  have segs: "\<forall>(x, t) \<in> set ?segs. one_line x \<and> calm x \<and> is_line_terminator t" by code_simp
  have l: "one_line ''image: b/svc:v1''" "calm ''image: b/svc:v1''" by code_simp+
  have r: "readFile (disk (yaml_state ?c)) [''deploy.yaml''] = Inr (with_terminators ?segs ''image: b/svc:v1'')"
    by code_simp
  have m: "line_matches ''svc'' ''image: a/svc:v1''" "line_matches ''svc'' ''image: b/svc:v1''"
    by code_simp+
  have n: "patch_line ''svc'' ''v2'' ''# next'' = ''# next''" by code_simp
  note th = updateYaml_rewrites_every_match[OF p t segs l r ev]
  from th[THEN conjunct1] th[THEN conjunct2] m n show ?thesis
    unfolding patched_def by simp
qed

text \<open>
  C6 as the specification states it fails for a file of two matching lines: the second
  line is rewritten to the new tag as well.
\<close>

theorem updateYaml_later_match_counterexample:
  "patched ''svc'' ''v2'' (''image: a/svc:v1'' @ [CHR 0x0A] @ ''image: b/svc:v1'')
     = Inr (''image: a/svc:v2'' @ [CHR 0x0A] @ ''image: b/svc:v2'')
   \<and> image_then_identifier ''svc'' ''image: a/svc:v1''
   \<and> image_then_identifier ''svc'' ''image: b/svc:v1''"
  by code_simp

end
